theory Spec2Isabelle
  imports Main "HOL-Library.AList"
begin

section \<open>Python strings, slices and dictionaries\<close>

text \<open>
  The parsers of \<^verbatim>\<open>insights/parsers/gluster_vol.py\<close> work on lists of text lines.
  A line is a \<^typ>\<open>string\<close>; the characters are the code points below 256 of a Python
  \<^verbatim>\<open>str\<close>. A \<^verbatim>\<open>dict\<close> is an association list in insertion order: assigning to a key
  that is present keeps its position, assigning to a new key appends, which is what
  \<^const>\<open>AList.update\<close> does.
\<close>

datatype error = ParseException | ValueError | KeyError | IndexError

type_synonym 'v dict = "(string \<times> 'v) list"

text \<open>\<^verbatim>\<open>str.isspace\<close> on one character (code points below 256).\<close>

definition isspace :: "char \<Rightarrow> bool" where
  "isspace c = (c \<in> set [CHR 0x09, CHR 0x0A, CHR 0x0B, CHR 0x0C, CHR 0x0D,
                          CHR 0x1C, CHR 0x1D, CHR 0x1E, CHR 0x1F, CHR 0x20,
                          CHR 0x85, CHR 0xA0])"

text \<open>\<^verbatim>\<open>s.lstrip()\<close>, \<^verbatim>\<open>s.rstrip()\<close>, \<^verbatim>\<open>s.strip()\<close> and \<^verbatim>\<open>s.lstrip(chars)\<close>.\<close>

definition lstrip :: "string \<Rightarrow> string" where
  "lstrip s = dropWhile isspace s"

definition rstrip :: "string \<Rightarrow> string" where
  "rstrip s = rev (dropWhile isspace (rev s))"

definition strip :: "string \<Rightarrow> string" where
  "strip s = rstrip (lstrip s)"

definition lstrip_chars :: "string \<Rightarrow> string \<Rightarrow> string" where
  "lstrip_chars chars s = dropWhile (\<lambda>c. c \<in> set chars) s"

text \<open>\<^verbatim>\<open>s.split(sep, 1)\<close> for a separator of one character: at most one split, at the
  first occurrence; the result has one element when the separator does not occur.\<close>

definition split1 :: "char \<Rightarrow> string \<Rightarrow> string list" where
  "split1 sep s =
     (if sep \<in> set s
      then [takeWhile (\<lambda>c. c \<noteq> sep) s, tl (dropWhile (\<lambda>c. c \<noteq> sep) s)]
      else [s])"

text \<open>\<^verbatim>\<open>s.startswith(p)\<close>.\<close>

definition startswith :: "string \<Rightarrow> string \<Rightarrow> bool" where
  "startswith s p = (take (length p) s = p)"

text \<open>\<^verbatim>\<open>s.split()\<close>: the maximal runs of characters that are not whitespace.\<close>

function split_ws :: "string \<Rightarrow> string list" where
  "split_ws [] = []"
| "split_ws (c # cs) =
     (if isspace c then split_ws cs
      else takeWhile (\<lambda>x. \<not> isspace x) (c # cs) # split_ws (dropWhile (\<lambda>x. \<not> isspace x) cs))"
  by pat_completeness auto
termination
  by (relation "measure length") (auto simp: length_dropWhile_le less_Suc_eq_le)

text \<open>\<^verbatim>\<open>xs[start:end]\<close> with Python's treatment of negative and out-of-range bounds.\<close>

definition slice_bound :: "nat \<Rightarrow> int \<Rightarrow> nat" where
  "slice_bound n i = (if i < 0 then nat (max 0 (int n + i)) else min n (nat i))"

definition slice :: "'a list \<Rightarrow> int \<Rightarrow> int \<Rightarrow> 'a list" where
  "slice xs start end =
     (let s = slice_bound (length xs) start; e = slice_bound (length xs) end
      in take (e - s) (drop s xs))"

section \<open>GlusterVolInfo\<close>

text \<open>
  The object under construction. \<^verbatim>\<open>data\<close> is the only attribute the parsers touch.
\<close>

record 'd parser_obj =
  data :: 'd

type_synonym volume_record = "string dict"

text \<open>
  \<^verbatim>\<open>get_active_lines\<close> is imported from \<^verbatim>\<open>insights.parsers\<close>, which is not among the
  sources; the parsers take it as a parameter. Its second argument is the optional marker
  (\<^verbatim>\<open>get_active_lines(content)\<close> passes none).
\<close>

type_synonym active_lines_fn = "string list \<Rightarrow> string option \<Rightarrow> string list"

text \<open>
  The first statements of the loop body of \<^verbatim>\<open>GlusterVolInfo.parse_content\<close>: the key
  and the value of a line. The two-name unpacking of the split is a \<^const>\<open>ValueError\<close>
  when the split has not two parts.
\<close>

definition key_val :: "string \<Rightarrow> error + string \<times> string" where
  "key_val line =
     (if CHR '':'' \<in> set line then
        (case split1 CHR '':'' (strip line) of
           [k, v] \<Rightarrow> Inr (strip k, lstrip v)
         | _ \<Rightarrow> Inl ValueError)
      else Inl ParseException)"

text \<open>
  One iteration of the loop over the local state \<^verbatim>\<open>(self.data, name, body)\<close>.
\<close>

type_synonym info_state = "volume_record dict \<times> string option \<times> volume_record"

fun info_step :: "info_state \<Rightarrow> string \<Rightarrow> error + info_state" where
  "info_step (d, name, body) line =
     (case key_val line of
        Inl e \<Rightarrow> Inl e
      | Inr (key, val) \<Rightarrow>
          if key = ''Volume Name'' then
            (case name of
               None \<Rightarrow> Inr (d, Some val, body)
             | Some n \<Rightarrow> Inr (AList.update n body d, Some val, []))
          else Inr (d, name, AList.update (strip key) (lstrip_chars '' '' val) body))"

fun info_loop :: "info_state \<Rightarrow> string list \<Rightarrow> error + info_state" where
  "info_loop st [] = Inr st"
| "info_loop st (line # lines) =
     (case info_step st line of
        Inl e \<Rightarrow> Inl e
      | Inr st' \<Rightarrow> info_loop st' lines)"

text \<open>The statements after the loop: \<^verbatim>\<open>if name and body\<close>, then \<^verbatim>\<open>if not self.data\<close>.\<close>

definition info_commit_last :: "info_state \<Rightarrow> volume_record dict" where
  "info_commit_last st =
     (case st of (d, name, body) \<Rightarrow>
        (case name of
           None \<Rightarrow> d
         | Some n \<Rightarrow> if n \<noteq> [] \<and> body \<noteq> [] then AList.update n body d else d))"

definition info_finish ::
  "volume_record dict parser_obj \<Rightarrow> info_state \<Rightarrow> error + volume_record dict parser_obj" where
  "info_finish self st =
     (let d = info_commit_last st
      in if d = [] then Inl ParseException else Inr (self\<lparr>data := d\<rparr>))"

text \<open>
  \<^verbatim>\<open>GlusterVolInfo.parse_content(self, content)\<close>. The first statement replaces whatever
  \<^verbatim>\<open>self.data\<close> held. \<^const>\<open>Inl\<close> is the exception raised, \<^const>\<open>Inr\<close> the object after
  a normal return.
\<close>

definition GlusterVolInfo_parse_content ::
  "active_lines_fn \<Rightarrow> volume_record dict parser_obj \<Rightarrow> string list
     \<Rightarrow> error + volume_record dict parser_obj" where
  "GlusterVolInfo_parse_content get_active_lines self content =
     (let self' = self\<lparr>data := []\<rparr> in
      case info_loop (data self', None, []) (get_active_lines content None) of
        Inl e \<Rightarrow> Inl e
      | Inr st \<Rightarrow> info_finish self' st)"

section \<open>GlusterVolStatus\<close>

type_synonym process_row = "string dict"

text \<open>
  \<^verbatim>\<open>parse_fixed_table\<close> is imported from \<^verbatim>\<open>insights.parsers\<close> as well and is a
  parameter too. Its arguments are, in this order, \<^verbatim>\<open>table_lines\<close>,
  \<^verbatim>\<open>header_substitute\<close>, \<^verbatim>\<open>heading_ignore\<close> and \<^verbatim>\<open>trailing_ignore\<close>; it returns
  the rows of the table, each a fresh dictionary from column name to cell.
\<close>

type_synonym fixed_table_fn =
  "string list \<Rightarrow> (string \<times> string) list \<Rightarrow> string list \<Rightarrow> string list \<Rightarrow> process_row list"

text \<open>
  The body of \<^verbatim>\<open>for v in body\<close>: the row is updated in place. \<^verbatim>\<open>v['Gluster_process']\<close>
  is a \<^const>\<open>KeyError\<close> when the column is missing, the unpacking of the colon split a
  \<^const>\<open>ValueError\<close> when it has not two parts, and \<^verbatim>\<open>[-1]\<close> of an empty list an
  \<^const>\<open>IndexError\<close>.
\<close>

definition enrich_row :: "process_row \<Rightarrow> error + process_row" where
  "enrich_row v =
     (case map_of v ''Gluster_process'' of
        None \<Rightarrow> Inl KeyError
      | Some gluster_process \<Rightarrow>
          if startswith gluster_process ''Brick'' then
            (case split1 CHR '':'' gluster_process of
               [ip, dir] \<Rightarrow>
                 (case split_ws ip of
                    [] \<Rightarrow> Inl IndexError
                  | w # ws \<Rightarrow>
                      Inr (AList.update ''Directory'' (strip dir)
                            (AList.update ''IP'' (strip (last (w # ws))) v)))
             | _ \<Rightarrow> Inl ValueError)
          else if startswith gluster_process ''Self-heal'' then
            (case split_ws gluster_process of
               [] \<Rightarrow> Inl IndexError
             | w # ws \<Rightarrow> Inr (AList.update ''Host'' (last (w # ws)) v))
          else Inr v)"

fun enrich_rows :: "process_row list \<Rightarrow> error + process_row list" where
  "enrich_rows [] = Inr []"
| "enrich_rows (v # vs) =
     (case enrich_row v of
        Inl e \<Rightarrow> Inl e
      | Inr v' \<Rightarrow>
          (case enrich_rows vs of
             Inl e \<Rightarrow> Inl e
           | Inr vs' \<Rightarrow> Inr (v' # vs')))"

text \<open>\<^verbatim>\<open>idxs = [i for i, l in enumerate(content) if l.startswith('Status of volume')]\<close>\<close>

definition header_idxs :: "string list \<Rightarrow> nat list" where
  "header_idxs content =
     filter (\<lambda>i. startswith (content ! i) ''Status of volume'') [0..<length content]"

text \<open>
  \<^verbatim>\<open>end = idxs[i+1] if i < len(idxs) - 1 else -1\<close>, where \<open>rest\<close> is what follows
  \<^verbatim>\<open>idxs[i]\<close> in \<^verbatim>\<open>idxs\<close>; and the lines \<^verbatim>\<open>content[start:end]\<close> given to the table
  parser.
\<close>

definition section_end :: "nat list \<Rightarrow> int" where
  "section_end rest = (case rest of [] \<Rightarrow> - 1 | nxt # _ \<Rightarrow> int nxt)"

definition section_lines :: "string list \<Rightarrow> nat \<Rightarrow> nat list \<Rightarrow> string list" where
  "section_lines content idx rest = slice content (int idx) (section_end rest)"

definition header_substitute :: "(string \<times> string) list" where
  "header_substitute =
     [(''Gluster process'', ''Gluster_process''),
      (''TCP Port'', ''TCP_Port''),
      (''RDMA Port'', ''RDMA_Port'')]"

text \<open>The loop \<^verbatim>\<open>for i, idx in enumerate(idxs)\<close> over \<^verbatim>\<open>self.data\<close>.\<close>

fun status_loop ::
  "fixed_table_fn \<Rightarrow> string list \<Rightarrow> process_row list dict \<Rightarrow> nat list
     \<Rightarrow> error + process_row list dict" where
  "status_loop parse_fixed_table content d [] = Inr d"
| "status_loop parse_fixed_table content d (idx # rest) =
     (case split1 CHR '':'' (content ! idx) of
        [_, val] \<Rightarrow>
          (case enrich_rows
                  (parse_fixed_table (section_lines content idx rest) header_substitute
                     [''Gluster process''] [''Task Status'']) of
             Inl e \<Rightarrow> Inl e
           | Inr body \<Rightarrow>
               status_loop parse_fixed_table content (AList.update (strip val) body d) rest)
      | _ \<Rightarrow> Inl ValueError)"

text \<open>\<^verbatim>\<open>GlusterVolStatus.parse_content(self, content)\<close>.\<close>

definition GlusterVolStatus_parse_content ::
  "active_lines_fn \<Rightarrow> fixed_table_fn \<Rightarrow> process_row list dict parser_obj \<Rightarrow> string list
     \<Rightarrow> error + process_row list dict parser_obj" where
  "GlusterVolStatus_parse_content get_active_lines parse_fixed_table self content =
     (let self' = self\<lparr>data := []\<rparr>;
          content' = get_active_lines content (Some ''----'')
      in case status_loop parse_fixed_table content' (data self') (header_idxs content') of
           Inl e \<Rightarrow> Inl e
         | Inr d \<Rightarrow> if d = [] then Inl ParseException else Inr (self'\<lparr>data := d\<rparr>))"

section \<open>The two collaborators, as the specification describes them\<close>

text \<open>\<^verbatim>\<open>sub in s\<close> and \<^verbatim>\<open>s.replace(old, new)\<close>.\<close>

definition contains :: "string \<Rightarrow> string \<Rightarrow> bool" where
  "contains s sub = list_ex (\<lambda>i. startswith (drop i s) sub) [0..<Suc (length s)]"

fun replace :: "string \<Rightarrow> string \<Rightarrow> string \<Rightarrow> string" where
  "replace old new [] = []"
| "replace old new (c # cs) =
     (if old \<noteq> [] \<and> startswith (c # cs) old
      then new @ replace old new (drop (length old - 1) cs)
      else c # replace old new cs)"

text \<open>
  Modelled from the spec: \<^verbatim>\<open>get_active_lines\<close> of \<^verbatim>\<open>insights/parsers/__init__.py\<close>,
  which is not among the sources. The specification calls it the filter that, "given raw
  text lines and an optional marker substring, returns only active (non-comment,
  non-blank) lines, optionally excluding lines up to/containing the marker": a line is
  kept when it is not blank and does not contain the marker.
\<close>

definition spec_get_active_lines :: active_lines_fn where
  "spec_get_active_lines lines marker =
     filter (\<lambda>l. strip l \<noteq> [] \<and> (case marker of None \<Rightarrow> True | Some m \<Rightarrow> \<not> contains l m))
       lines"

text \<open>The tokens of a header row with their start offsets.\<close>

function tokens_at :: "nat \<Rightarrow> string \<Rightarrow> (nat \<times> string) list" where
  "tokens_at i [] = []"
| "tokens_at i (c # cs) =
     (if isspace c then tokens_at (Suc i) cs
      else (let tok = takeWhile (\<lambda>x. \<not> isspace x) (c # cs)
            in (i, tok) # tokens_at (i + length tok) (dropWhile (\<lambda>x. \<not> isspace x) cs)))"
  by pat_completeness auto
termination
  by (relation "measure (\<lambda>(i, s). length s)") (auto simp: length_dropWhile_le less_Suc_eq_le)

fun cells :: "(nat \<times> string) list \<Rightarrow> string \<Rightarrow> (string \<times> string) list" where
  "cells [] line = []"
| "cells [(off, name)] line = [(name, strip (drop off line))]"
| "cells ((off, name) # (off', name') # cols) line =
     (name, strip (take (off' - off) (drop off line))) # cells ((off', name') # cols) line"

text \<open>
  Modelled from the spec: \<^verbatim>\<open>parse_fixed_table\<close> of \<^verbatim>\<open>insights/parsers/__init__.py\<close>,
  which is not among the sources. After the specification (4.2, steps 5 and 6): the column
  header row is the first line that starts with one of the \<^verbatim>\<open>heading_ignore\<close> labels; the
  renames are applied to it; the rows are the lines after it up to the first line that
  starts with one of the \<^verbatim>\<open>trailing_ignore\<close> labels; the column boundaries are the start
  offsets of the header row's tokens; each row is cut at those offsets and each cell is
  trimmed.
\<close>

definition spec_parse_fixed_table :: fixed_table_fn where
  "spec_parse_fixed_table table_lines header_subst heading_ignore trailing_ignore =
     (case dropWhile (\<lambda>l. \<not> list_ex (startswith l) heading_ignore) table_lines of
        [] \<Rightarrow> []
      | header # rest \<Rightarrow>
          (let header' = fold (\<lambda>(old, new) h. replace old new h) header_subst header;
               cols = tokens_at 0 header';
               rows = takeWhile (\<lambda>l. \<not> list_ex (startswith l) trailing_ignore) rest
           in map (\<lambda>line. fold (\<lambda>(k, c) row. AList.update k c row) (cells cols line) []) rows))"

section \<open>The vocabulary of the properties of GlusterVolInfo\<close>

text \<open>A string with no whitespace at either end, in every key and value of a result.\<close>

definition stripped_record :: "volume_record \<Rightarrow> bool" where
  "stripped_record r = list_all (\<lambda>(k, v). strip k = k \<and> strip v = v) r"

definition stripped_dict :: "volume_record dict \<Rightarrow> bool" where
  "stripped_dict d = list_all (\<lambda>(n, r). strip n = n \<and> stripped_record r) d"

text \<open>
  The keys and values of the lines, and the values that follow the marker key
  "Volume Name", in the order of the lines.
\<close>

definition key_vals :: "string list \<Rightarrow> (string \<times> string) list" where
  "key_vals lines =
     List.map_filter (\<lambda>line. case key_val line of Inl e \<Rightarrow> None | Inr kv \<Rightarrow> Some kv) lines"

definition marker_names :: "string list \<Rightarrow> string list" where
  "marker_names lines = map snd (filter (\<lambda>(k, v). k = ''Volume Name'') (key_vals lines))"

text \<open>
  The volume blocks of an input, after the words of the specification: the markers
  separate the input into blocks; \<open>split_blocks\<close> gives the pairs before the first
  marker, and for each marker its name with the pairs up to the next marker. The record
  of a block is what the assignments of its pairs, in order, build; the pairs before the
  first marker go to the first block.
\<close>

fun split_blocks ::
  "(string \<times> string) list \<Rightarrow> (string \<times> string) list \<times> (string \<times> (string \<times> string) list) list" where
  "split_blocks [] = ([], [])"
| "split_blocks ((k, v) # kvs) =
     (case split_blocks kvs of (pre, bs) \<Rightarrow>
        if k = ''Volume Name'' then ([], (v, pre) # bs) else ((k, v) # pre, bs))"

definition dict_from :: "volume_record \<Rightarrow> (string \<times> string) list \<Rightarrow> volume_record" where
  "dict_from body kvs = fold (\<lambda>(k, v) b. AList.update k v b) kvs body"

definition block_records ::
  "(string \<times> (string \<times> string) list) list \<Rightarrow> (string \<times> volume_record) list" where
  "block_records bs = map (\<lambda>(n, kvs). (n, dict_from [] kvs)) bs"

definition volume_blocks :: "string list \<Rightarrow> (string \<times> volume_record) list" where
  "volume_blocks lines =
     (case split_blocks (key_vals lines) of
        (pre, []) \<Rightarrow> []
      | (pre, (n, kvs) # bs) \<Rightarrow> (n, dict_from [] (pre @ kvs)) # block_records bs)"

text \<open>
  The blocks that reach the result: every block but the last, and the last one when
  neither its name nor its record is empty.
\<close>

definition committed_blocks :: "string list \<Rightarrow> (string \<times> volume_record) list" where
  "committed_blocks lines =
     (let bs = volume_blocks lines
      in if bs \<noteq> [] \<and> fst (last bs) \<noteq> [] \<and> snd (last bs) \<noteq> [] then bs else butlast bs)"

text \<open>The loop on the keys and values alone, for lines that all have a colon.\<close>

fun kv_step :: "info_state \<Rightarrow> string \<times> string \<Rightarrow> info_state" where
  "kv_step (d, name, body) (key, val) =
     (if key = ''Volume Name'' then
        (case name of
           None \<Rightarrow> (d, Some val, body)
         | Some n \<Rightarrow> (AList.update n body d, Some val, []))
      else (d, name, AList.update key val body))"

definition kv_loop :: "info_state \<Rightarrow> (string \<times> string) list \<Rightarrow> info_state" where
  "kv_loop st kvs = fold (\<lambda>kv st. kv_step st kv) kvs st"

text \<open>Committing blocks in order: \<^verbatim>\<open>self.data[name] = body\<close> for each of them.\<close>

definition commit_blocks ::
  "volume_record dict \<Rightarrow> (string \<times> volume_record) list \<Rightarrow> volume_record dict" where
  "commit_blocks d bs = fold (\<lambda>(n, r) d. AList.update n r d) bs d"

section \<open>Auxiliary facts\<close>

lemma in_set_dropWhile: "x \<in> set xs \<Longrightarrow> \<not> P x \<Longrightarrow> x \<in> set (dropWhile P xs)"
  by (induction xs) auto

lemma in_set_strip: "c \<in> set s \<Longrightarrow> \<not> isspace c \<Longrightarrow> c \<in> set (strip s)"
  by (simp add: strip_def rstrip_def lstrip_def in_set_dropWhile)

lemma colon_not_space: "\<not> isspace CHR '':''"
  by (simp add: isspace_def)

lemma split1_in: "sep \<in> set s \<Longrightarrow>
  split1 sep s = [takeWhile (\<lambda>c. c \<noteq> sep) s, tl (dropWhile (\<lambda>c. c \<noteq> sep) s)]"
  by (simp add: split1_def)

lemma split1_notin: "sep \<notin> set s \<Longrightarrow> split1 sep s = [s]"
  by (simp add: split1_def)

subsection \<open>The loop of GlusterVolInfo\<close>

lemma key_val_colon:
  "CHR '':'' \<in> set line \<Longrightarrow> \<exists>k v. key_val line = Inr (k, v)"
  by (simp add: key_val_def split1_in in_set_strip colon_not_space)

lemma key_val_no_colon:
  "CHR '':'' \<notin> set line \<Longrightarrow> key_val line = Inl ParseException"
  by (simp add: key_val_def)

lemma info_step_colon:
  "CHR '':'' \<in> set line \<Longrightarrow> \<exists>st'. info_step st line = Inr st'"
  using key_val_colon [of line] by (cases st) (auto split: option.splits)

lemma info_step_no_colon:
  "CHR '':'' \<notin> set line \<Longrightarrow> info_step st line = Inl ParseException"
  by (cases st) (simp add: key_val_no_colon)

lemma info_loop_no_colon:
  "\<exists>l\<in>set lines. CHR '':'' \<notin> set l \<Longrightarrow> info_loop st lines = Inl ParseException"
proof (induction lines arbitrary: st)
  case Nil
  then show ?case by simp
next
  case (Cons l ls)
  show ?case
  proof (cases "CHR '':'' \<in> set l")
    case True
    then obtain st' where st': "info_step st l = Inr st'"
      using info_step_colon by blast
    from True Cons.prems have "\<exists>l\<in>set ls. CHR '':'' \<notin> set l" by auto
    then have "info_loop st' ls = Inl ParseException" by (rule Cons.IH)
    with st' show ?thesis by simp
  next
    case False
    then show ?thesis by (simp add: info_step_no_colon del: info_step.simps)
  qed
qed

subsection \<open>The loop of GlusterVolStatus\<close>

lemma enrich_row_not_ParseException: "enrich_row v \<noteq> Inl ParseException"
  by (simp add: enrich_row_def split: option.splits list.splits)

lemma enrich_rows_not_ParseException: "enrich_rows vs \<noteq> Inl ParseException"
  by (induction vs) (auto simp: enrich_row_not_ParseException split: sum.splits)

lemma status_loop_not_ParseException:
  "status_loop pft content d idxs \<noteq> Inl ParseException"
  by (induction idxs arbitrary: d)
     (auto simp: enrich_rows_not_ParseException split: list.splits sum.splits)

lemma status_loop_nonempty:
  "status_loop pft content d idxs = Inr d' \<Longrightarrow> d \<noteq> [] \<or> idxs \<noteq> [] \<Longrightarrow> d' \<noteq> []"
proof (induction idxs arbitrary: d)
  case Nil
  then show ?case by simp
next
  case (Cons idx rest)
  from Cons.prems(1) obtain u val body where
    "status_loop pft content (AList.update (strip val) body d) rest = Inr d'"
    by (auto split: list.splits sum.splits)
  then show ?case
    by (rule Cons.IH) simp
qed

lemma header_idxs_empty_iff:
  "header_idxs content = [] \<longleftrightarrow> \<not> list_ex (\<lambda>l. startswith l ''Status of volume'') content"
proof -
  have "(\<forall>i<length content. \<not> startswith (content ! i) ''Status of volume'')
        \<longleftrightarrow> (\<forall>l\<in>set content. \<not> startswith l ''Status of volume'')"
    by (metis in_set_conv_nth)
  then show ?thesis
    by (auto simp: header_idxs_def filter_empty_conv list_ex_iff)
qed

lemma info_finish_nonempty: "info_finish self st = Inr self' \<Longrightarrow> data self' \<noteq> []"
  by (auto simp: info_finish_def Let_def split: if_splits)

subsection \<open>Splitting and stripping\<close>

lemma takeWhile_before_sep:
  "sep \<notin> set before \<Longrightarrow> takeWhile (\<lambda>c. c \<noteq> sep) (before @ sep # after) = before"
  by (induction before) auto

lemma dropWhile_before_sep:
  "sep \<notin> set before \<Longrightarrow> dropWhile (\<lambda>c. c \<noteq> sep) (before @ sep # after) = sep # after"
  by (induction before) auto

lemma split1_append:
  "sep \<notin> set before \<Longrightarrow> split1 sep (before @ sep # after) = [before, after]"
  by (simp add: split1_def takeWhile_before_sep dropWhile_before_sep)

lemma split_ws_no_space: "w \<in> set (split_ws s) \<Longrightarrow> c \<in> set w \<Longrightarrow> \<not> isspace c"
proof (induction s arbitrary: w rule: split_ws.induct)
  case 1
  then show ?case by simp
next
  case (2 x xs)
  show ?case
  proof (cases "isspace x")
    case True
    with 2 show ?thesis by simp
  next
    case False
    from 2(3) False
    consider "w = takeWhile (\<lambda>x. \<not> isspace x) (x # xs)"
      | "w \<in> set (split_ws (dropWhile (\<lambda>x. \<not> isspace x) xs))"
      by auto
    then show ?thesis
    proof cases
      case 1
      with 2(4) show ?thesis
        using set_takeWhileD by fastforce
    next
      case 2
      then show ?thesis
        using "2.IH"(2) [OF False] "2.prems"(2) by blast
    qed
  qed
qed

lemma strip_no_space: "\<forall>c\<in>set w. \<not> isspace c \<Longrightarrow> strip w = w"
proof -
  assume a: "\<forall>c\<in>set w. \<not> isspace c"
  then have "dropWhile isspace w = w"
    by (cases w) auto
  moreover from a have "dropWhile isspace (rev w) = rev w"
    by (cases "rev w") (auto simp: rev_is_Nil_conv dest!: arg_cong [where f = set])
  ultimately show ?thesis
    by (simp add: strip_def lstrip_def rstrip_def)
qed

lemma strip_last_split_ws: "split_ws s \<noteq> [] \<Longrightarrow> strip (last (split_ws s)) = last (split_ws s)"
  by (metis last_in_set split_ws_no_space strip_no_space)

lemma startswith_Cons: "startswith s (c # p) \<Longrightarrow> \<exists>s'. s = c # s'"
  by (cases s) (auto simp: startswith_def)

lemma split_ws_nonspace_Cons: "\<not> isspace c \<Longrightarrow> split_ws (c # cs) \<noteq> []"
  by simp

lemma B_not_space: "\<not> isspace CHR ''B''" and S_not_space: "\<not> isspace CHR ''S''"
  by (simp_all add: isspace_def)

lemma not_both_prefixes: "startswith gp ''Self-heal'' \<Longrightarrow> \<not> startswith gp ''Brick''"
  by (cases gp) (auto simp: startswith_def)

subsection \<open>Row enrichment\<close>

lemma enrich_row_Brick:
  assumes gp: "map_of v ''Gluster_process'' = Some (before @ CHR '':'' # after)"
    and pre: "startswith (before @ CHR '':'' # after) ''Brick''"
    and nc: "CHR '':'' \<notin> set before"
  shows "enrich_row v =
     Inr (AList.update ''Directory'' (strip after)
           (AList.update ''IP'' (last (split_ws before)) v))"
proof -
  from pre obtain s' where "before @ CHR '':'' # after = CHR ''B'' # s'"
    using startswith_Cons by blast
  then obtain b' where b': "before = CHR ''B'' # b'"
    by (cases before) auto
  then obtain w ws where ws: "split_ws before = w # ws"
    using B_not_space by (cases "split_ws before") auto
  then have "strip (last (w # ws)) = last (w # ws)"
    using strip_last_split_ws [of before] by simp
  with gp pre nc ws show ?thesis
    by (simp add: enrich_row_def split1_append)
qed

lemma enrich_row_Brick_no_colon:
  assumes "map_of v ''Gluster_process'' = Some gp"
    and "startswith gp ''Brick''"
    and "CHR '':'' \<notin> set gp"
  shows "enrich_row v = Inl ValueError"
  using assms by (simp add: enrich_row_def split1_notin)

lemma enrich_row_Self_heal:
  assumes gp: "map_of v ''Gluster_process'' = Some gp"
    and pre: "startswith gp ''Self-heal''"
  shows "enrich_row v = Inr (AList.update ''Host'' (last (split_ws gp)) v)"
proof -
  from pre obtain s' where "gp = CHR ''S'' # s'"
    using startswith_Cons by blast
  then obtain w ws where ws: "split_ws gp = w # ws"
    using S_not_space by (cases "split_ws gp") auto
  with gp pre not_both_prefixes [OF pre] show ?thesis
    by (simp add: enrich_row_def)
qed

lemma enrich_row_other:
  assumes "map_of v ''Gluster_process'' = Some gp"
    and "\<not> startswith gp ''Brick''"
    and "\<not> startswith gp ''Self-heal''"
  shows "enrich_row v = Inr v"
  using assms by (simp add: enrich_row_def)

lemma enrich_rows_Inr:
  "enrich_rows vs = Inr vs' \<Longrightarrow> list_all2 (\<lambda>v v'. enrich_row v = Inr v') vs vs'"
  by (induction vs arbitrary: vs') (auto split: sum.splits)

lemma set_update_subset: "set (AList.update k v al) \<subseteq> insert (k, v) (set al)"
  by (induction al) auto

lemma status_loop_rows:
  assumes "status_loop pft content d idxs = Inr d'"
    and "(name, rows) \<in> set d'"
  shows "(name, rows) \<in> set d \<or>
         (\<exists>idx rest. enrich_rows (pft (section_lines content idx rest) header_substitute
                        [''Gluster process''] [''Task Status'']) = Inr rows)"
  using assms
proof (induction idxs arbitrary: d)
  case Nil
  then show ?case by simp
next
  case (Cons idx rest)
  from Cons.prems(1) obtain u val body where
    body: "enrich_rows (pft (section_lines content idx rest) header_substitute
             [''Gluster process''] [''Task Status'']) = Inr body"
    and loop: "status_loop pft content (AList.update (strip val) body d) rest = Inr d'"
    by (auto split: list.splits sum.splits)
  from Cons.IH [OF loop Cons.prems(2)] show ?case
  proof
    assume "(name, rows) \<in> set (AList.update (strip val) body d)"
    then have "(name, rows) = (strip val, body) \<or> (name, rows) \<in> set d"
      using set_update_subset by fastforce
    with body show ?thesis by blast
  qed blast
qed

lemma enrich_row_defined:
  assumes "map_of v ''Gluster_process'' = Some gp"
  shows "enrich_row v = Inl ValueError \<or> (\<exists>v'. enrich_row v = Inr v')"
proof (cases "startswith gp ''Brick''")
  case True
  show ?thesis
  proof (cases "CHR '':'' \<in> set gp")
    case True
    then obtain before after where "gp = before @ CHR '':'' # after" "CHR '':'' \<notin> set before"
      using split_list_first [of "CHR '':''" gp] by blast
    with assms \<open>startswith gp ''Brick''\<close> show ?thesis
      using enrich_row_Brick [of v before after] by simp
  next
    case False
    with assms True show ?thesis
      by (simp add: enrich_row_Brick_no_colon)
  qed
next
  case False
  with assms show ?thesis
    using enrich_row_Self_heal [of v gp] enrich_row_other [of v gp] by (cases "startswith gp ''Self-heal''") auto
qed

lemma enrich_rows_ValueError:
  assumes "\<forall>v\<in>set rows. map_of v ''Gluster_process'' \<noteq> None"
    and "\<exists>v\<in>set rows. enrich_row v = Inl ValueError"
  shows "enrich_rows rows = Inl ValueError"
  using assms
proof (induction rows)
  case Nil
  then show ?case by simp
next
  case (Cons r rs)
  from Cons.prems(1) obtain gp where "map_of r ''Gluster_process'' = Some gp"
    by auto
  then consider "enrich_row r = Inl ValueError" | v' where "enrich_row r = Inr v'"
    using enrich_row_defined by blast
  then show ?case
  proof cases
    case 1
    then show ?thesis by simp
  next
    case 2
    with Cons.prems have "\<exists>v\<in>set rs. enrich_row v = Inl ValueError" by auto
    with Cons.IH Cons.prems(1) have "enrich_rows rs = Inl ValueError" by simp
    with 2 show ?thesis by simp
  qed
qed

lemma section_lines_last: "section_lines content idx [] = butlast (drop idx content)"
proof -
  have "nat (max 0 (int (length content) - 1)) - min (length content) idx
        = length content - idx - 1"
    by (simp add: min_def max_def nat_diff_distrib')
  then show ?thesis
    by (simp add: section_lines_def section_end_def slice_def slice_bound_def Let_def
        butlast_conv_take min_def)
qed

lemma section_lines_next:
  "section_lines content idx (nxt # rest) = take (nxt - idx) (drop idx content)"
proof (cases "idx \<le> length content")
  case True
  then show ?thesis
    by (cases "nxt \<le> length content")
       (simp_all add: section_lines_def section_end_def slice_def slice_bound_def Let_def
          min_def)
next
  case False
  then show ?thesis
    by (simp add: section_lines_def section_end_def slice_def slice_bound_def Let_def)
qed

subsection \<open>Stripped strings\<close>

lemma last_dropWhile: "dropWhile P xs \<noteq> [] \<Longrightarrow> last (dropWhile P xs) = last xs"
  by (induction xs) (auto split: if_splits)

lemma strip_ends:
  "strip s = [] \<or> (\<not> isspace (hd (strip s)) \<and> \<not> isspace (last (strip s)))"
proof (cases "strip s = []")
  case True
  then show ?thesis by simp
next
  case False
  let ?t = "dropWhile isspace s"
  let ?u = "dropWhile isspace (rev ?t)"
  have s: "strip s = rev ?u"
    by (simp add: strip_def rstrip_def lstrip_def)
  with False have u: "?u \<noteq> []"
    by (metis rev.simps(1))
  then have t: "?t \<noteq> []"
    by (metis dropWhile.simps(1) rev.simps(1))
  have "\<not> isspace (hd ?u)"
    using u by (rule hd_dropWhile)
  then have l: "\<not> isspace (last (strip s))"
    using u s by (simp add: last_rev)
  have "last ?u = last (rev ?t)"
    using u by (rule last_dropWhile)
  then have "hd (strip s) = hd ?t"
    using u t s by (simp add: hd_rev last_rev)
  moreover have "\<not> isspace (hd ?t)"
    using t by (rule hd_dropWhile)
  ultimately show ?thesis
    using l by simp
qed

lemma strip_eq_self_iff:
  "strip s = s \<longleftrightarrow> s = [] \<or> (\<not> isspace (hd s) \<and> \<not> isspace (last s))"
proof
  assume "strip s = s"
  then show "s = [] \<or> (\<not> isspace (hd s) \<and> \<not> isspace (last s))"
    using strip_ends [of s] by auto
next
  assume a: "s = [] \<or> (\<not> isspace (hd s) \<and> \<not> isspace (last s))"
  show "strip s = s"
  proof (cases "s = []")
    case True
    then show ?thesis by (simp add: strip_def rstrip_def lstrip_def)
  next
    case False
    with a have "dropWhile isspace s = s" "dropWhile isspace (rev s) = rev s"
      by (simp_all add: dropWhile_eq_self_iff hd_rev)
    then show ?thesis by (simp add: strip_def rstrip_def lstrip_def)
  qed
qed

lemma strip_idem: "strip (strip s) = strip s"
  using strip_ends [of s] by (simp add: strip_eq_self_iff)

lemma lstrip_suffix_stripped:
  assumes "strip (k @ c # v) = k @ c # v"
  shows "strip (lstrip v) = lstrip v"
proof (cases "lstrip v = []")
  case True
  then show ?thesis by (simp add: strip_eq_self_iff)
next
  case False
  then have dv: "dropWhile isspace v \<noteq> []"
    by (simp only: lstrip_def not_False_eq_True)
  then have v: "v \<noteq> []"
    by (metis dropWhile.simps(1))
  from assms have "\<not> isspace (last (k @ c # v))"
    by (simp add: strip_eq_self_iff)
  with v have "\<not> isspace (last v)"
    by simp
  then have "\<not> isspace (last (lstrip v))"
    using last_dropWhile [OF dv] by (simp add: lstrip_def)
  moreover have "\<not> isspace (hd (lstrip v))"
    using hd_dropWhile [OF dv] by (simp add: lstrip_def)
  ultimately show ?thesis
    by (simp add: strip_eq_self_iff)
qed

lemma lstrip_chars_space_stripped: "strip s = s \<Longrightarrow> lstrip_chars '' '' s = s"
proof -
  assume "strip s = s"
  then have "s = [] \<or> \<not> isspace (hd s)"
    using strip_eq_self_iff [of s] by blast
  moreover have "isspace CHR '' ''"
    by (simp add: isspace_def)
  ultimately have "s = [] \<or> hd s \<noteq> CHR '' ''"
    by auto
  then show ?thesis
    by (cases s) (auto simp: lstrip_chars_def)
qed

text \<open>What \<^const>\<open>key_val\<close> returns, in terms of the parts of the stripped line.\<close>

lemma key_val_parts:
  assumes "CHR '':'' \<in> set line"
  obtains k v where "strip line = k @ CHR '':'' # v" and "CHR '':'' \<notin> set k"
    and "key_val line = Inr (strip k, lstrip v)"
proof -
  from assms have "CHR '':'' \<in> set (strip line)"
    by (simp add: in_set_strip colon_not_space)
  then obtain k v where kv: "strip line = k @ CHR '':'' # v" "CHR '':'' \<notin> set k"
    using split_list_first [of "CHR '':''" "strip line"] by blast
  with assms have "key_val line = Inr (strip k, lstrip v)"
    by (simp add: key_val_def split1_append)
  with kv show thesis
    by (rule that)
qed

lemma key_val_stripped:
  assumes "key_val line = Inr (key, val)"
  shows "strip key = key \<and> strip val = val"
proof -
  from assms have c: "CHR '':'' \<in> set line"
    by (auto simp: key_val_def split: if_splits)
  then obtain k v where kv: "strip line = k @ CHR '':'' # v"
    and r: "key_val line = Inr (strip k, lstrip v)"
    by (rule key_val_parts)
  from kv have "strip (k @ CHR '':'' # v) = k @ CHR '':'' # v"
    using strip_idem [of line] by simp
  then have "strip (lstrip v) = lstrip v"
    by (rule lstrip_suffix_stripped)
  with r assms show ?thesis
    by (simp add: strip_idem)
qed

lemma stripped_record_update:
  "stripped_record r \<Longrightarrow> strip k = k \<Longrightarrow> strip v = v \<Longrightarrow> stripped_record (AList.update k v r)"
  unfolding stripped_record_def list_all_iff
  using set_update_subset [of k v r] by auto

lemma stripped_dict_update:
  "stripped_dict d \<Longrightarrow> strip n = n \<Longrightarrow> stripped_record r \<Longrightarrow> stripped_dict (AList.update n r d)"
  unfolding stripped_dict_def list_all_iff
  using set_update_subset [of n r d] by auto

lemma info_step_key_val:
  assumes "key_val line = Inr (key, val)"
  shows "info_step (d, name, body) line = Inr (kv_step (d, name, body) (key, val))"
proof -
  from assms have "strip key = key" "strip val = val"
    using key_val_stripped by blast+
  with assms show ?thesis
    by (simp add: lstrip_chars_space_stripped split: option.splits)
qed

lemma kv_step_stripped:
  assumes "kv_step (d, name, body) (key, val) = (d', name', body')"
    and "strip key = key" and "strip val = val"
    and "stripped_dict d" and "\<forall>n. name = Some n \<longrightarrow> strip n = n" and "stripped_record body"
  shows "stripped_dict d' \<and> (\<forall>n. name' = Some n \<longrightarrow> strip n = n) \<and> stripped_record body'"
proof -
  have "stripped_record []"
    by (simp add: stripped_record_def)
  with assms show ?thesis
    by (auto simp: stripped_dict_update stripped_record_update
        split: if_splits option.splits)
qed

lemma info_loop_stripped:
  assumes "info_loop (d, name, body) lines = Inr (d', name', body')"
    and "stripped_dict d" and "\<forall>n. name = Some n \<longrightarrow> strip n = n" and "stripped_record body"
  shows "stripped_dict d' \<and> (\<forall>n. name' = Some n \<longrightarrow> strip n = n) \<and> stripped_record body'"
  using assms
proof (induction lines arbitrary: d name body)
  case Nil
  then show ?case by simp
next
  case (Cons l ls)
  from Cons.prems(1) obtain key val where kv: "key_val l = Inr (key, val)"
    by (cases "key_val l") auto
  obtain d1 name1 body1 where st: "kv_step (d, name, body) (key, val) = (d1, name1, body1)"
    by (cases "kv_step (d, name, body) (key, val)") auto
  from kv have s: "strip key = key" "strip val = val"
    using key_val_stripped by blast+
  from kv st Cons.prems(1) have loop: "info_loop (d1, name1, body1) ls = Inr (d', name', body')"
    by (simp add: info_step_key_val del: info_step.simps)
  from kv_step_stripped [OF st s Cons.prems(2-4)]
  show ?case
    using Cons.IH [OF loop] by blast
qed

subsection \<open>The loop of GlusterVolInfo and the volume blocks\<close>

lemma key_vals_Cons:
  "key_val l = Inr kv \<Longrightarrow> key_vals (l # ls) = kv # key_vals ls"
  by (simp add: key_vals_def map_filter_simps)

lemma info_loop_kv_loop:
  "\<forall>l\<in>set lines. CHR '':'' \<in> set l \<Longrightarrow>
     info_loop st lines = Inr (kv_loop st (key_vals lines))"
proof (induction lines arbitrary: st)
  case Nil
  then show ?case
    by (simp add: kv_loop_def key_vals_def map_filter_simps)
next
  case (Cons l ls)
  obtain d name body where st: "st = (d, name, body)"
    by (cases st) auto
  from Cons.prems obtain key val where kv: "key_val l = Inr (key, val)"
    using key_val_colon [of l] by auto
  then have "info_step st l = Inr (kv_step st (key, val))"
    unfolding st by (rule info_step_key_val)
  moreover have "info_loop (kv_step st (key, val)) ls
      = Inr (kv_loop (kv_step st (key, val)) (key_vals ls))"
    using Cons.prems by (intro Cons.IH) simp
  ultimately show ?case
    using kv by (simp add: key_vals_Cons kv_loop_def del: info_step.simps kv_step.simps)
qed

lemma dict_from_Nil: "dict_from body [] = body"
  by (simp add: dict_from_def)

lemma dict_from_Cons: "dict_from body ((k, v) # kvs) = dict_from (AList.update k v body) kvs"
  by (simp add: dict_from_def)

lemma commit_blocks_Nil: "commit_blocks d [] = d"
  by (simp add: commit_blocks_def)

lemma commit_blocks_Cons: "commit_blocks d ((n, r) # bs) = commit_blocks (AList.update n r d) bs"
  by (simp add: commit_blocks_def)

lemma commit_blocks_snoc: "commit_blocks d (bs @ [(n, r)]) = AList.update n r (commit_blocks d bs)"
  by (simp add: commit_blocks_def)

lemma kv_loop_Nil: "kv_loop st [] = st"
  by (simp add: kv_loop_def)

lemma kv_loop_Cons: "kv_loop st (kv # kvs) = kv_loop (kv_step st kv) kvs"
  by (simp add: kv_loop_def)

lemma block_records_Cons:
  "block_records ((n, kvs) # bs) = (n, dict_from [] kvs) # block_records bs"
  by (simp add: block_records_def)

lemma kv_loop_Some:
  "split_blocks kvs = (pre, bs) \<Longrightarrow>
   kv_loop (d, Some n0, body) kvs =
     (commit_blocks d (butlast ((n0, dict_from body pre) # block_records bs)),
      Some (fst (last ((n0, dict_from body pre) # block_records bs))),
      snd (last ((n0, dict_from body pre) # block_records bs)))"
proof (induction kvs arbitrary: d n0 body pre bs)
  case Nil
  then show ?case
    by (simp add: kv_loop_Nil dict_from_Nil commit_blocks_Nil block_records_def)
next
  case (Cons kv kvs)
  obtain k v where kv: "kv = (k, v)"
    by (cases kv) auto
  obtain pre' bs' where sp: "split_blocks kvs = (pre', bs')"
    by (cases "split_blocks kvs") auto
  show ?case
  proof (cases "k = ''Volume Name''")
    case True
    with Cons.prems kv sp have pb: "pre = []" "bs = (v, pre') # bs'"
      by auto
    have "kv_loop (d, Some n0, body) (kv # kvs)
        = kv_loop (AList.update n0 body d, Some v, []) kvs"
      using True kv by (simp add: kv_loop_Cons)
    also have "\<dots> =
      (commit_blocks (AList.update n0 body d)
         (butlast ((v, dict_from [] pre') # block_records bs')),
       Some (fst (last ((v, dict_from [] pre') # block_records bs'))),
       snd (last ((v, dict_from [] pre') # block_records bs')))"
      using sp by (rule Cons.IH)
    finally show ?thesis
      by (simp add: pb block_records_Cons dict_from_Nil commit_blocks_Cons)
  next
    case False
    with Cons.prems kv sp have pb: "pre = (k, v) # pre'" "bs = bs'"
      by auto
    have "kv_loop (d, Some n0, body) (kv # kvs)
        = kv_loop (d, Some n0, AList.update k v body) kvs"
      using False kv by (simp add: kv_loop_Cons)
    also have "\<dots> =
      (commit_blocks d (butlast ((n0, dict_from (AList.update k v body) pre') # block_records bs')),
       Some (fst (last ((n0, dict_from (AList.update k v body) pre') # block_records bs'))),
       snd (last ((n0, dict_from (AList.update k v body) pre') # block_records bs')))"
      using sp by (rule Cons.IH)
    finally show ?thesis
      by (simp add: pb dict_from_Cons)
  qed
qed

lemma kv_loop_None_no_marker:
  "split_blocks kvs = (pre, []) \<Longrightarrow> kv_loop (d, None, body) kvs = (d, None, dict_from body pre)"
proof (induction kvs arbitrary: body pre)
  case Nil
  then show ?case by (simp add: kv_loop_Nil dict_from_Nil)
next
  case (Cons kv kvs)
  obtain k v where kv: "kv = (k, v)"
    by (cases kv) auto
  obtain pre' bs' where sp: "split_blocks kvs = (pre', bs')"
    by (cases "split_blocks kvs") auto
  with Cons.prems kv have nm: "k \<noteq> ''Volume Name''" and pb: "pre = (k, v) # pre'" "bs' = []"
    by (auto split: if_splits)
  from sp pb have "kv_loop (d, None, AList.update k v body) kvs
      = (d, None, dict_from (AList.update k v body) pre')"
    by (intro Cons.IH) simp
  with nm kv pb show ?case
    by (simp add: kv_loop_Cons dict_from_Cons)
qed

lemma kv_loop_None_marker:
  "split_blocks kvs = (pre, (n, ls) # bs) \<Longrightarrow>
   kv_loop (d, None, body) kvs =
     (commit_blocks d (butlast ((n, dict_from body (pre @ ls)) # block_records bs)),
      Some (fst (last ((n, dict_from body (pre @ ls)) # block_records bs))),
      snd (last ((n, dict_from body (pre @ ls)) # block_records bs)))"
proof (induction kvs arbitrary: body pre)
  case Nil
  then show ?case by simp
next
  case (Cons kv kvs)
  obtain k v where kv: "kv = (k, v)"
    by (cases kv) auto
  obtain pre' bs' where sp: "split_blocks kvs = (pre', bs')"
    by (cases "split_blocks kvs") auto
  show ?case
  proof (cases "k = ''Volume Name''")
    case True
    with Cons.prems kv sp have pb: "pre = []" "n = v" "ls = pre'" "bs = bs'"
      by auto
    have "kv_loop (d, None, body) (kv # kvs) = kv_loop (d, Some v, body) kvs"
      using True kv by (simp add: kv_loop_Cons)
    then show ?thesis
      using kv_loop_Some [OF sp, of d v body] by (simp add: pb)
  next
    case False
    with Cons.prems kv sp have pb: "pre = (k, v) # pre'" "bs' = (n, ls) # bs"
      by auto
    have "kv_loop (d, None, body) (kv # kvs) = kv_loop (d, None, AList.update k v body) kvs"
      using False kv by (simp add: kv_loop_Cons)
    moreover have "split_blocks kvs = (pre', (n, ls) # bs)"
      using sp pb by simp
    ultimately show ?thesis
      using Cons.IH [of pre' "AList.update k v body"] by (simp add: pb dict_from_Cons)
  qed
qed

lemma info_loop_blocks:
  assumes "\<forall>l\<in>set lines. CHR '':'' \<in> set l"
  shows "\<exists>d name body. info_loop ([], None, []) lines = Inr (d, name, body)
          \<and> info_commit_last (d, name, body) = commit_blocks [] (committed_blocks lines)
          \<and> (volume_blocks lines \<noteq> [] \<longrightarrow>
                d = commit_blocks [] (butlast (volume_blocks lines))
                \<and> name = Some (fst (last (volume_blocks lines)))
                \<and> body = snd (last (volume_blocks lines)))"
proof -
  obtain pre bs where sp: "split_blocks (key_vals lines) = (pre, bs)"
    by (cases "split_blocks (key_vals lines)") auto
  have loop: "info_loop ([], None, []) lines = Inr (kv_loop ([], None, []) (key_vals lines))"
    using assms by (rule info_loop_kv_loop)
  show ?thesis
  proof (cases bs)
    case Nil
    with sp have "kv_loop ([], None, []) (key_vals lines) = ([], None, dict_from [] pre)"
      by (simp add: kv_loop_None_no_marker)
    moreover from sp Nil have "volume_blocks lines = []"
      by (simp add: volume_blocks_def)
    ultimately show ?thesis
      using loop by (simp add: info_commit_last_def committed_blocks_def commit_blocks_Nil)
  next
    case (Cons b bs')
    obtain n ls where b: "b = (n, ls)"
      by (cases b) auto
    let ?B = "(n, dict_from [] (pre @ ls)) # block_records bs'"
    from sp Cons b have vb: "volume_blocks lines = ?B"
      by (simp add: volume_blocks_def)
    from sp Cons b have kl: "kv_loop ([], None, []) (key_vals lines)
        = (commit_blocks [] (butlast ?B), Some (fst (last ?B)), snd (last ?B))"
      by (simp add: kv_loop_None_marker)
    have "?B = butlast ?B @ [(fst (last ?B), snd (last ?B))]"
      by (metis append_butlast_last_id list.distinct(1) prod.collapse)
    then have "commit_blocks [] ?B
        = AList.update (fst (last ?B)) (snd (last ?B)) (commit_blocks [] (butlast ?B))"
      by (metis commit_blocks_snoc)
    then have "info_commit_last (commit_blocks [] (butlast ?B), Some (fst (last ?B)), snd (last ?B))
        = commit_blocks [] (committed_blocks lines)"
      unfolding info_commit_last_def committed_blocks_def vb Let_def
      by simp
    with loop kl vb show ?thesis
      by simp
  qed
qed

subsection \<open>Dictionaries built by assignments in order\<close>

lemma commit_blocks_map_of:
  "map_of (commit_blocks d bs) = map_of d ++ map_of (rev bs)"
proof (induction bs arbitrary: d)
  case Nil
  then show ?case by (simp add: commit_blocks_Nil)
next
  case (Cons b bs)
  obtain n r where b: "b = (n, r)"
    by (cases b) auto
  have "map_of (commit_blocks d (b # bs)) = map_of (AList.update n r d) ++ map_of (rev bs)"
    unfolding b commit_blocks_Cons by (rule Cons.IH)
  also have "\<dots> = (map_of d)(n \<mapsto> r) ++ map_of (rev bs)"
    by (simp add: AList.update_conv')
  also have "\<dots> = map_of d ++ map_of (rev (b # bs))"
    by (simp add: b map_add_upd_left fun_eq_iff map_add_def split: option.splits)
  finally show ?case .
qed

lemma commit_blocks_distinct:
  "distinct (map fst d) \<Longrightarrow> distinct (map fst (commit_blocks d bs))"
proof (induction bs arbitrary: d)
  case Nil
  then show ?case by (simp add: commit_blocks_Nil)
next
  case (Cons b bs)
  then show ?case
    by (cases b) (simp add: commit_blocks_Cons AList.distinct_update)
qed

lemma commit_blocks_keys:
  "map fst (commit_blocks [] bs) = rev (remdups (rev (map fst bs)))"
proof (induction bs rule: rev_induct)
  case Nil
  then show ?case by (simp add: commit_blocks_Nil)
next
  case (snoc b bs)
  obtain n r where b: "b = (n, r)"
    by (cases b) auto
  have "set (map fst (commit_blocks [] bs)) = set (map fst bs)"
    unfolding snoc.IH by simp
  then have "n \<in> set (map fst (commit_blocks [] bs)) \<longleftrightarrow> n \<in> fst ` set bs"
    by simp
  then show ?case
    unfolding b commit_blocks_snoc
    by (simp add: AList.update_keys snoc.IH)
qed

lemma commit_blocks_keys_distinct:
  assumes "distinct (map fst bs)"
  shows "map fst (commit_blocks [] bs) = map fst bs"
proof -
  from assms have "distinct (rev (map fst bs))"
    by (simp only: distinct_rev)
  then have "remdups (rev (map fst bs)) = rev (map fst bs)"
    by (rule distinct_remdups_id)
  then show ?thesis
    by (simp only: commit_blocks_keys rev_rev_ident)
qed

lemma split_blocks_names:
  "map fst (snd (split_blocks kvs)) = map snd (filter (\<lambda>(k, v). k = ''Volume Name'') kvs)"
  by (induction kvs rule: split_blocks.induct) (auto split: prod.splits)

lemma volume_blocks_names: "map fst (volume_blocks lines) = marker_names lines"
proof -
  obtain pre bs where sp: "split_blocks (key_vals lines) = (pre, bs)"
    by (cases "split_blocks (key_vals lines)") auto
  have "map fst (volume_blocks lines) = map fst bs"
    using sp by (cases bs) (auto simp: volume_blocks_def block_records_def comp_def split_def)
  also have "\<dots> = marker_names lines"
    using split_blocks_names [of "key_vals lines"] sp by (simp add: marker_names_def)
  finally show ?thesis .
qed

lemma parse_info_Inr_colons:
  assumes "GlusterVolInfo_parse_content get_active_lines self content = Inr self'"
  shows "\<forall>l\<in>set (get_active_lines content None). CHR '':'' \<in> set l"
proof (rule ccontr)
  assume "\<not> (\<forall>l\<in>set (get_active_lines content None). CHR '':'' \<in> set l)"
  then have "info_loop ([], None, []) (get_active_lines content None) = Inl ParseException"
    by (intro info_loop_no_colon) blast
  with assms show False
    by (simp add: GlusterVolInfo_parse_content_def)
qed

lemma parse_info_blocks:
  assumes "\<forall>l\<in>set (get_active_lines content None). CHR '':'' \<in> set l"
  shows "GlusterVolInfo_parse_content get_active_lines self content =
     (if commit_blocks [] (committed_blocks (get_active_lines content None)) = []
      then Inl ParseException
      else Inr (self\<lparr>data := commit_blocks [] (committed_blocks (get_active_lines content None))\<rparr>))"
proof -
  from info_loop_blocks [OF assms] obtain d name body where
    "info_loop ([], None, []) (get_active_lines content None) = Inr (d, name, body)"
    "info_commit_last (d, name, body)
       = commit_blocks [] (committed_blocks (get_active_lines content None))"
    by blast
  then show ?thesis
    by (simp add: GlusterVolInfo_parse_content_def info_finish_def Let_def)
qed

section \<open>Properties of \<^verbatim>\<open>GlusterVolInfo.parse_content\<close>\<close>

text \<open>
  C2, as the code has it. After the loop the current name is committed with its record
  only when the name is not the empty string and the record is not empty; otherwise the
  mapping stays as the loop left it. So, when every active line has a colon, the marker
  names are pairwise distinct, and the last name and the record of the last block are not
  empty, the result has one entry for each of the markers, keyed by their names in order.
\<close>

theorem info_last_volume_commit:
  "(info_loop ([], None, []) (get_active_lines content None) = Inr (d, Some n, body)
      \<and> n \<noteq> [] \<and> body \<noteq> [] \<longrightarrow>
      GlusterVolInfo_parse_content get_active_lines self content
        = Inr (self\<lparr>data := AList.update n body d\<rparr>))
   \<and> (info_loop ([], None, []) (get_active_lines content None) = Inr (d, name, body)
      \<and> (name = None \<or> name = Some [] \<or> body = []) \<longrightarrow>
      GlusterVolInfo_parse_content get_active_lines self content
        = (if d = [] then Inl ParseException else Inr (self\<lparr>data := d\<rparr>)))
   \<and> ((\<forall>l\<in>set (get_active_lines content None). CHR '':'' \<in> set l)
      \<and> distinct (marker_names (get_active_lines content None))
      \<and> marker_names (get_active_lines content None) \<noteq> []
      \<and> last (marker_names (get_active_lines content None)) \<noteq> []
      \<and> snd (last (volume_blocks (get_active_lines content None))) \<noteq> [] \<longrightarrow>
      (\<exists>self'. GlusterVolInfo_parse_content get_active_lines self content = Inr self'
         \<and> map fst (data self') = marker_names (get_active_lines content None)
         \<and> length (data self') = length (marker_names (get_active_lines content None))))"
proof (intro conjI impI; (elim conjE)?)
  assume "info_loop ([], None, []) (get_active_lines content None) = Inr (d, Some n, body)"
    and "n \<noteq> []" and "body \<noteq> []"
  then show "GlusterVolInfo_parse_content get_active_lines self content
        = Inr (self\<lparr>data := AList.update n body d\<rparr>)"
    by (simp add: GlusterVolInfo_parse_content_def info_finish_def info_commit_last_def)
next
  assume "info_loop ([], None, []) (get_active_lines content None) = Inr (d, name, body)"
    and "name = None \<or> name = Some [] \<or> body = []"
  then show "GlusterVolInfo_parse_content get_active_lines self content
        = (if d = [] then Inl ParseException else Inr (self\<lparr>data := d\<rparr>))"
    by (auto simp: GlusterVolInfo_parse_content_def info_finish_def info_commit_last_def
        split: option.splits)
next
  let ?lines = "get_active_lines content None"
  let ?B = "volume_blocks ?lines"
  assume colons: "\<forall>l\<in>set ?lines. CHR '':'' \<in> set l"
    and dist: "distinct (marker_names ?lines)"
    and ne: "marker_names ?lines \<noteq> []"
    and ln: "last (marker_names ?lines) \<noteq> []"
    and lb: "snd (last ?B) \<noteq> []"
  have names: "map fst ?B = marker_names ?lines"
    by (rule volume_blocks_names)
  with ne have B: "?B \<noteq> []"
    by auto
  then have "fst (last ?B) = last (map fst ?B)"
    by (simp add: last_map)
  with ln names have "fst (last ?B) \<noteq> []"
    by simp
  with B lb have cb: "committed_blocks ?lines = ?B"
    by (simp add: committed_blocks_def)
  from dist names have keys: "map fst (commit_blocks [] ?B) = marker_names ?lines"
    using commit_blocks_keys_distinct [of ?B] by simp
  with ne have "commit_blocks [] ?B \<noteq> []"
    by auto
  with colons cb
    parse_info_blocks [where get_active_lines = get_active_lines and content = content
      and self = self]
  have "GlusterVolInfo_parse_content get_active_lines self content
      = Inr (self\<lparr>data := commit_blocks [] ?B\<rparr>)"
    by simp
  moreover have "length (commit_blocks [] ?B) = length (marker_names ?lines)"
    using keys by (metis length_map)
  ultimately show "\<exists>self'. GlusterVolInfo_parse_content get_active_lines self content = Inr self'
         \<and> map fst (data self') = marker_names ?lines
         \<and> length (data self') = length (marker_names ?lines)"
    using keys by simp
qed

theorem info_last_volume_commit_witness:
  "info_loop ([], None, []) (spec_get_active_lines [''Volume Name: v'', ''Type: x''] None)
     = Inr ([], Some ''v'', [(''Type'', ''x'')])
   \<and> GlusterVolInfo_parse_content spec_get_active_lines \<lparr>data = []\<rparr>
        [''Volume Name: v'', ''Type: x'']
     = Inr \<lparr>data = [(''v'', [(''Type'', ''x'')])]\<rparr>
   \<and> info_loop ([], None, [])
        (spec_get_active_lines [''Volume Name: a'', ''Status: up'', ''Volume Name: b''] None)
     = Inr ([(''a'', [(''Status'', ''up'')])], Some ''b'', [])
   \<and> GlusterVolInfo_parse_content spec_get_active_lines \<lparr>data = []\<rparr>
        [''Volume Name: a'', ''Status: up'', ''Volume Name: b'']
     = Inr \<lparr>data = [(''a'', [(''Status'', ''up'')])]\<rparr>
   \<and> list_all (\<lambda>l. CHR '':'' \<in> set l)
        (spec_get_active_lines
           [''Volume Name: a'', ''Type: x'', ''Volume Name: b'', ''Type: y''] None)
   \<and> marker_names (spec_get_active_lines
        [''Volume Name: a'', ''Type: x'', ''Volume Name: b'', ''Type: y''] None) = [''a'', ''b'']
   \<and> snd (last (volume_blocks (spec_get_active_lines
        [''Volume Name: a'', ''Type: x'', ''Volume Name: b'', ''Type: y''] None)))
     = [(''Type'', ''y'')]
   \<and> (\<exists>self'. GlusterVolInfo_parse_content spec_get_active_lines \<lparr>data = []\<rparr>
          [''Volume Name: a'', ''Type: x'', ''Volume Name: b'', ''Type: y''] = Inr self'
        \<and> map fst (data self') = [''a'', ''b'']
        \<and> length (data self') = 2)"
proof -
  let ?C1 = "[''Volume Name: v'', ''Type: x'']"
  let ?C2 = "[''Volume Name: a'', ''Status: up'', ''Volume Name: b'']"
  let ?C3 = "[''Volume Name: a'', ''Type: x'', ''Volume Name: b'', ''Type: y'']"
  note t = info_last_volume_commit [where get_active_lines = spec_get_active_lines
      and self = "\<lparr>data = []\<rparr>"]
  have a1: "info_loop ([], None, []) (spec_get_active_lines ?C1 None)
     = Inr ([], Some ''v'', [(''Type'', ''x'')])"
    by code_simp
  have a2: "''v'' \<noteq> []" "[(''Type'', ''x'')] \<noteq> []"
    by simp_all
  have a: "GlusterVolInfo_parse_content spec_get_active_lines \<lparr>data = []\<rparr> ?C1
     = Inr \<lparr>data = [(''v'', [(''Type'', ''x'')])]\<rparr>"
    using t [where content = ?C1, THEN conjunct1, rule_format,
        OF conjI [OF a1 conjI [OF a2]]]
    by simp
  have b1: "info_loop ([], None, []) (spec_get_active_lines ?C2 None)
     = Inr ([(''a'', [(''Status'', ''up'')])], Some ''b'', [])"
    by code_simp
  have b2: "Some ''b'' = None \<or> Some ''b'' = Some [] \<or> ([]::volume_record) = []"
    by simp
  have b: "GlusterVolInfo_parse_content spec_get_active_lines \<lparr>data = []\<rparr> ?C2
     = Inr \<lparr>data = [(''a'', [(''Status'', ''up'')])]\<rparr>"
    using t [where content = ?C2, THEN conjunct2, THEN conjunct1, rule_format,
        OF conjI [OF b1 b2]]
    by simp
  have c1: "list_all (\<lambda>l. CHR '':'' \<in> set l) (spec_get_active_lines ?C3 None)"
    by code_simp
  then have c1': "\<forall>l\<in>set (spec_get_active_lines ?C3 None). CHR '':'' \<in> set l"
    by (simp only: list_all_iff)
  have c2: "marker_names (spec_get_active_lines ?C3 None) = [''a'', ''b'']"
    by code_simp
  have c3: "snd (last (volume_blocks (spec_get_active_lines ?C3 None))) = [(''Type'', ''y'')]"
    by code_simp
  have c4: "distinct (marker_names (spec_get_active_lines ?C3 None))"
    "marker_names (spec_get_active_lines ?C3 None) \<noteq> []"
    "last (marker_names (spec_get_active_lines ?C3 None)) \<noteq> []"
    "snd (last (volume_blocks (spec_get_active_lines ?C3 None))) \<noteq> []"
    unfolding c2 c3 by simp_all
  have c: "\<exists>self'. GlusterVolInfo_parse_content spec_get_active_lines \<lparr>data = []\<rparr> ?C3
          = Inr self'
        \<and> map fst (data self') = [''a'', ''b'']
        \<and> length (data self') = 2"
    using t [where content = ?C3, THEN conjunct2, THEN conjunct2, rule_format,
        OF conjI [OF c1' conjI [OF c4(1) conjI [OF c4(2) conjI [OF c4(3) c4(4)]]]]]
    unfolding c2 by (simp add: numeral_2_eq_2)
  show ?thesis
    by (intro conjI) (rule a1 a b1 b c1 c2 c3 c)+
qed

theorem info_last_volume_dropped_counterexample:
  "marker_names (spec_get_active_lines
      [''Volume Name: a'', ''Type: x'', ''Volume Name: b''] None) = [''a'', ''b'']
   \<and> info_loop ([], None, [])
        (spec_get_active_lines [''Volume Name: a'', ''Type: x'', ''Volume Name: b''] None)
     = Inr ([(''a'', [(''Type'', ''x'')])], Some ''b'', [])
   \<and> GlusterVolInfo_parse_content spec_get_active_lines \<lparr>data = []\<rparr>
        [''Volume Name: a'', ''Type: x'', ''Volume Name: b'']
     = Inr \<lparr>data = [(''a'', [(''Type'', ''x'')])]\<rparr>
   \<and> length (data \<lparr>data = [(''a'', [(''Type'', ''x'')])]\<rparr>) \<noteq> length [''a'', ''b'']"
  by code_simp

text \<open>
  C3, as the code has it. A line is first stripped at both ends and then split at its
  first colon: with \<open>k\<close> and \<open>v\<close> the parts of the stripped line before and after that
  colon, the key is \<open>k\<close> trimmed on both sides and the value is \<open>v\<close> trimmed on the
  left. As the line was stripped first, the value has no whitespace at its end either. A
  key other than "Volume Name" is stored with exactly this key and this value, and no key,
  value or volume name of a result has whitespace at either end.
\<close>

theorem info_line_stripped_then_split:
  "(CHR '':'' \<in> set line \<and> strip line = k @ CHR '':'' # v \<and> CHR '':'' \<notin> set k \<longrightarrow>
      key_val line = Inr (strip k, lstrip v) \<and> strip (lstrip v) = lstrip v)
   \<and> (key_val line = Inr (key, val) \<and> key \<noteq> ''Volume Name'' \<longrightarrow>
      info_step (d, name, body) line = Inr (d, name, AList.update key val body))
   \<and> (GlusterVolInfo_parse_content get_active_lines self content = Inr self' \<longrightarrow>
      stripped_dict (data self'))"
proof (intro conjI impI; (elim conjE)?)
  assume c: "CHR '':'' \<in> set line" and kv: "strip line = k @ CHR '':'' # v"
    and nc: "CHR '':'' \<notin> set k"
  then show "key_val line = Inr (strip k, lstrip v)"
    by (simp add: key_val_def split1_append)
  from kv have "strip (k @ CHR '':'' # v) = k @ CHR '':'' # v"
    using strip_idem [of line] by simp
  then show "strip (lstrip v) = lstrip v"
    by (rule lstrip_suffix_stripped)
next
  assume "key_val line = Inr (key, val)" and "key \<noteq> ''Volume Name''"
  then show "info_step (d, name, body) line = Inr (d, name, AList.update key val body)"
    by (simp add: info_step_key_val del: info_step.simps)
next
  assume p: "GlusterVolInfo_parse_content get_active_lines self content = Inr self'"
  then obtain d' name' body' where
    loop: "info_loop ([], None, []) (get_active_lines content None) = Inr (d', name', body')"
    and fin: "info_finish (self\<lparr>data := []\<rparr>) (d', name', body') = Inr self'"
    by (auto simp: GlusterVolInfo_parse_content_def Let_def split: sum.splits)
  have "stripped_dict []" "stripped_record []"
    by (simp_all add: stripped_dict_def stripped_record_def)
  with info_loop_stripped [OF loop]
  have inv: "stripped_dict d'" "\<forall>n. name' = Some n \<longrightarrow> strip n = n" "stripped_record body'"
    by simp_all
  then have "stripped_dict (info_commit_last (d', name', body'))"
    by (auto simp: info_commit_last_def stripped_dict_update split: option.splits)
  with fin show "stripped_dict (data self')"
    by (auto simp: info_finish_def Let_def split: if_splits)
qed

theorem info_line_stripped_then_split_witness:
  "CHR '':'' \<in> set ''  Type : Replicate  ''
   \<and> strip ''  Type : Replicate  '' = ''Type '' @ CHR '':'' # '' Replicate''
   \<and> CHR '':'' \<notin> set ''Type ''
   \<and> key_val ''  Type : Replicate  '' = Inr (''Type'', ''Replicate'')
   \<and> ''Type'' \<noteq> ''Volume Name''
   \<and> info_step ([], Some ''v'', []) ''  Type : Replicate  ''
       = Inr ([], Some ''v'', [(''Type'', ''Replicate'')])
   \<and> GlusterVolInfo_parse_content spec_get_active_lines \<lparr>data = []\<rparr>
        [''Volume Name: v'', ''  Type : Replicate  '']
       = Inr \<lparr>data = [(''v'', [(''Type'', ''Replicate'')])]\<rparr>
   \<and> stripped_dict [(''v'', [(''Type'', ''Replicate'')])]"
proof -
  let ?l = "''  Type : Replicate  ''"
  have a1: "CHR '':'' \<in> set ?l"
    by simp
  have a2: "strip ?l = ''Type '' @ CHR '':'' # '' Replicate''"
    by code_simp
  have a3: "CHR '':'' \<notin> set ''Type ''"
    by simp
  have a4: "strip ''Type '' = ''Type''" "lstrip '' Replicate'' = ''Replicate''"
    by code_simp+
  have a5: "''Type'' \<noteq> ''Volume Name''"
    by simp
  have p: "GlusterVolInfo_parse_content spec_get_active_lines \<lparr>data = []\<rparr>
        [''Volume Name: v'', ?l] = Inr \<lparr>data = [(''v'', [(''Type'', ''Replicate'')])]\<rparr>"
    by code_simp
  have kv: "key_val ?l = Inr (''Type'', ''Replicate'')"
    using info_line_stripped_then_split
      [where line = ?l and k = "''Type ''" and v = "'' Replicate''",
        THEN conjunct1, rule_format, OF conjI [OF a1 conjI [OF a2 a3]]]
    by (simp only: a4)
  have st: "info_step ([], Some ''v'', []) ?l = Inr ([], Some ''v'', [(''Type'', ''Replicate'')])"
    using info_line_stripped_then_split
      [where line = ?l and key = "''Type''" and val = "''Replicate''" and d = "[]"
         and name = "Some ''v''" and body = "[]",
        THEN conjunct2, THEN conjunct1, rule_format, OF conjI [OF kv a5]]
    by simp
  have sd: "stripped_dict (data \<lparr>data = [(''v'', [(''Type'', ''Replicate'')])]\<rparr>)"
    using info_line_stripped_then_split
      [where get_active_lines = spec_get_active_lines and self = "\<lparr>data = []\<rparr>"
         and content = "[''Volume Name: v'', ?l]",
        THEN conjunct2, THEN conjunct2, rule_format, OF p] .
  show ?thesis
    using a1 a2 a3 kv a5 st p sd by simp
qed

theorem value_trailing_whitespace_counterexample:
  "split1 CHR '':'' ''Type: Replicate  '' = [''Type'', '' Replicate  '']
   \<and> lstrip '' Replicate  '' = ''Replicate  ''
   \<and> info_step ([], Some ''v'', []) ''Type: Replicate  ''
       = Inr ([], Some ''v'', [(''Type'', ''Replicate'')])
   \<and> GlusterVolInfo_parse_content spec_get_active_lines \<lparr>data = []\<rparr>
        [''Volume Name: v'', ''Type: Replicate  '']
       = Inr \<lparr>data = [(''v'', [(''Type'', ''Replicate'')])]\<rparr>
   \<and> ''Replicate'' \<noteq> ''Replicate  ''"
  by code_simp

text \<open>
  C4. \<^verbatim>\<open>GlusterVolInfo.parse_content\<close> raises \<^verbatim>\<open>ParseException\<close> whenever some active
  line contains no colon, wherever that line stands among the active lines and whatever
  the lines before and after it are.
\<close>

theorem info_line_without_colon_raises:
  assumes "line \<in> set (get_active_lines content None)"
    and "CHR '':'' \<notin> set line"
  shows "GlusterVolInfo_parse_content get_active_lines self content = Inl ParseException"
proof -
  have "info_loop ([], None, []) (get_active_lines content None) = Inl ParseException"
    using assms by (intro info_loop_no_colon) blast
  then show ?thesis
    by (simp add: GlusterVolInfo_parse_content_def)
qed

theorem info_line_without_colon_raises_witness:
  "''Bricks'' \<in> set (spec_get_active_lines
       [''Volume Name: test_vol'', ''Type: Replicate'', ''Bricks''] None)
   \<and> CHR '':'' \<notin> set ''Bricks''
   \<and> GlusterVolInfo_parse_content spec_get_active_lines \<lparr>data = []\<rparr>
        [''Volume Name: test_vol'', ''Type: Replicate'', ''Bricks''] = Inl ParseException"
proof -
  have a: "''Bricks'' \<in> set (spec_get_active_lines
             [''Volume Name: test_vol'', ''Type: Replicate'', ''Bricks''] None)"
    by code_simp
  have b: "CHR '':'' \<notin> set ''Bricks''" by simp
  show ?thesis
    using a b info_line_without_colon_raises
      [where get_active_lines = spec_get_active_lines and line = "''Bricks''"
         and content = "[''Volume Name: test_vol'', ''Type: Replicate'', ''Bricks'']"
         and self = "\<lparr>data = []\<rparr>"]
    by blast
qed

text \<open>
  C8, as the code has it. When the call returns, the result is what committing the
  committed blocks in order builds: every block is named by the value that follows its
  "Volume Name" marker; all blocks but the last are committed, and the last one only when
  neither its name nor its record is empty. So the keys are unique, they are the names of
  the committed blocks in the order in which each first occurs, and a name that occurs
  more than once holds the record of its last committed block.
\<close>

theorem info_result_keys:
  assumes "GlusterVolInfo_parse_content get_active_lines self content = Inr self'"
  shows "data self' = commit_blocks [] (committed_blocks (get_active_lines content None))
    \<and> map fst (volume_blocks (get_active_lines content None))
        = marker_names (get_active_lines content None)
    \<and> distinct (map fst (data self'))
    \<and> map fst (data self')
        = rev (remdups (rev (map fst (committed_blocks (get_active_lines content None)))))
    \<and> map_of (data self') = map_of (rev (committed_blocks (get_active_lines content None)))"
proof -
  let ?lines = "get_active_lines content None"
  have "\<forall>l\<in>set ?lines. CHR '':'' \<in> set l"
    using assms by (rule parse_info_Inr_colons)
  then have "GlusterVolInfo_parse_content get_active_lines self content =
     (if commit_blocks [] (committed_blocks ?lines) = [] then Inl ParseException
      else Inr (self\<lparr>data := commit_blocks [] (committed_blocks ?lines)\<rparr>))"
    by (rule parse_info_blocks)
  with assms have d: "data self' = commit_blocks [] (committed_blocks ?lines)"
    by (auto split: if_splits)
  have "distinct (map fst (commit_blocks [] (committed_blocks ?lines)))"
    by (rule commit_blocks_distinct) simp
  moreover have "map_of (commit_blocks [] (committed_blocks ?lines))
      = map_of (rev (committed_blocks ?lines))"
    by (simp add: commit_blocks_map_of)
  ultimately show ?thesis
    unfolding d using commit_blocks_keys [of "committed_blocks ?lines"]
      volume_blocks_names [of ?lines]
    by simp
qed

theorem info_result_keys_witness:
  "GlusterVolInfo_parse_content spec_get_active_lines \<lparr>data = []\<rparr>
      [''Volume Name: a'', ''k: 1'', ''Volume Name: b'', ''k: 2'', ''Volume Name: a'', ''k: 3'']
     = Inr \<lparr>data = [(''a'', [(''k'', ''3'')]), (''b'', [(''k'', ''2'')])]\<rparr>
   \<and> committed_blocks (spec_get_active_lines
        [''Volume Name: a'', ''k: 1'', ''Volume Name: b'', ''k: 2'', ''Volume Name: a'', ''k: 3'']
        None)
     = [(''a'', [(''k'', ''1'')]), (''b'', [(''k'', ''2'')]), (''a'', [(''k'', ''3'')])]
   \<and> data \<lparr>data = [(''a'', [(''k'', ''3'')]), (''b'', [(''k'', ''2'')])]\<rparr>
     = commit_blocks []
         [(''a'', [(''k'', ''1'')]), (''b'', [(''k'', ''2'')]), (''a'', [(''k'', ''3'')])]
   \<and> map fst (data \<lparr>data = [(''a'', [(''k'', ''3'')]), (''b'', [(''k'', ''2'')])]\<rparr>)
     = rev (remdups (rev (map fst
         [(''a'', [(''k'', ''1'')]), (''b'', [(''k'', ''2'')]), (''a'', [(''k'', ''3'')])])))"
proof -
  let ?C = "[''Volume Name: a'', ''k: 1'', ''Volume Name: b'', ''k: 2'', ''Volume Name: a'',
             ''k: 3'']"
  have p: "GlusterVolInfo_parse_content spec_get_active_lines \<lparr>data = []\<rparr> ?C
     = Inr \<lparr>data = [(''a'', [(''k'', ''3'')]), (''b'', [(''k'', ''2'')])]\<rparr>"
    by code_simp
  have c: "committed_blocks (spec_get_active_lines ?C None)
     = [(''a'', [(''k'', ''1'')]), (''b'', [(''k'', ''2'')]), (''a'', [(''k'', ''3'')])]"
    by code_simp
  note t = info_result_keys [OF p, unfolded c]
  have t1: "data \<lparr>data = [(''a'', [(''k'', ''3'')]), (''b'', [(''k'', ''2'')])]\<rparr>
     = commit_blocks []
         [(''a'', [(''k'', ''1'')]), (''b'', [(''k'', ''2'')]), (''a'', [(''k'', ''3'')])]"
    using t by (rule conjunct1)
  have t4: "map fst (data \<lparr>data = [(''a'', [(''k'', ''3'')]), (''b'', [(''k'', ''2'')])]\<rparr>)
     = rev (remdups (rev (map fst
         [(''a'', [(''k'', ''1'')]), (''b'', [(''k'', ''2'')]), (''a'', [(''k'', ''3'')])])))"
    using t by (elim conjE)
  show ?thesis
    by (intro conjI) (rule p c t1 t4)+
qed

theorem info_keys_not_all_markers_counterexample:
  "marker_names (spec_get_active_lines [''Volume Name: a'', ''Volume Name: b''] None)
     = [''a'', ''b'']
   \<and> GlusterVolInfo_parse_content spec_get_active_lines \<lparr>data = []\<rparr>
        [''Volume Name: a'', ''Volume Name: b'']
     = Inr \<lparr>data = [(''a'', [])]\<rparr>
   \<and> map fst (data \<lparr>data = [(''a'', []::volume_record)]\<rparr>) \<noteq> [''a'', ''b'']"
  by code_simp

section \<open>Properties of \<^verbatim>\<open>GlusterVolStatus.parse_content\<close>\<close>

text \<open>
  C1. The claim: the section of the last "Status of volume" header consists of all lines
  from that header to the end of the input. The code: for the last header,
  \<^verbatim>\<open>end\<close> is \<^verbatim>\<open>-1\<close> and \<^verbatim>\<open>content[start:-1]\<close> leaves the last active line out, whatever
  it is. On the three active lines below the only data row of the table is the last line:
  it is not handed to the table parser, and the volume is stored with no row.
\<close>

theorem last_section_drops_last_line:
  "section_lines content idx [] = butlast (drop idx content)
   \<and> header_idxs [''Status of volume: v'', ''Gluster process  Pid'', ''Brick a:/b         1'']
       = [0]
   \<and> section_lines
        [''Status of volume: v'', ''Gluster process  Pid'', ''Brick a:/b         1''] 0 []
       = [''Status of volume: v'', ''Gluster process  Pid'']
   \<and> GlusterVolStatus_parse_content spec_get_active_lines spec_parse_fixed_table
        \<lparr>data = []\<rparr>
        [''Status of volume: v'', ''Gluster process  Pid'', ''Brick a:/b         1'']
       = Inr \<lparr>data = [(''v'', [])]\<rparr>"
proof (intro conjI)
  show "section_lines content idx [] = butlast (drop idx content)"
    by (rule section_lines_last)
  show "header_idxs [''Status of volume: v'', ''Gluster process  Pid'', ''Brick a:/b         1'']
       = [0]"
    by code_simp
  show "section_lines
        [''Status of volume: v'', ''Gluster process  Pid'', ''Brick a:/b         1''] 0 []
       = [''Status of volume: v'', ''Gluster process  Pid'']"
    by code_simp
  show "GlusterVolStatus_parse_content spec_get_active_lines spec_parse_fixed_table
        \<lparr>data = []\<rparr>
        [''Status of volume: v'', ''Gluster process  Pid'', ''Brick a:/b         1'']
       = Inr \<lparr>data = [(''v'', [])]\<rparr>"
    by code_simp
qed

text \<open>
  C6. What the loop over the rows adds to a row, by the value \<open>gp\<close> of its column
  "Gluster_process". When \<open>gp\<close> starts with "Brick" and \<open>before\<close> and \<open>after\<close> are its parts
  before and after its first colon: "IP" is the last whitespace-delimited word of
  \<open>before\<close> and "Directory" is \<open>after\<close>, trimmed. When \<open>gp\<close> starts with "Self-heal": "Host"
  is the last whitespace-delimited word of \<open>gp\<close>. No other key changes, and a row of
  neither kind is left as it is. Every row list that \<^verbatim>\<open>parse_content\<close> stores is, row by
  row, what this gives on the rows the table parser returned for a section.
\<close>

theorem enrich_row_derived_fields:
  "(map_of v ''Gluster_process'' = Some (before @ CHR '':'' # after)
      \<and> startswith (before @ CHR '':'' # after) ''Brick'' \<and> CHR '':'' \<notin> set before \<longrightarrow>
      (\<exists>v'. enrich_row v = Inr v'
         \<and> map_of v' ''IP'' = Some (last (split_ws before))
         \<and> map_of v' ''Directory'' = Some (strip after)
         \<and> (\<forall>k. k \<noteq> ''IP'' \<and> k \<noteq> ''Directory'' \<longrightarrow> map_of v' k = map_of v k)))
   \<and> (map_of v ''Gluster_process'' = Some gp \<and> startswith gp ''Self-heal'' \<longrightarrow>
      (\<exists>v'. enrich_row v = Inr v'
         \<and> map_of v' ''Host'' = Some (last (split_ws gp))
         \<and> (\<forall>k. k \<noteq> ''Host'' \<longrightarrow> map_of v' k = map_of v k)))
   \<and> (map_of v ''Gluster_process'' = Some gp \<and> \<not> startswith gp ''Brick''
        \<and> \<not> startswith gp ''Self-heal'' \<longrightarrow> enrich_row v = Inr v)
   \<and> (GlusterVolStatus_parse_content get_active_lines parse_fixed_table self content
         = Inr self' \<and> (name, rows) \<in> set (data self') \<longrightarrow>
      (\<exists>idx rest.
         list_all2 (\<lambda>r r'. enrich_row r = Inr r')
           (parse_fixed_table
              (section_lines (get_active_lines content (Some ''----'')) idx rest)
              header_substitute [''Gluster process''] [''Task Status''])
           rows))"
proof (intro conjI impI; (elim conjE)?)
  assume "map_of v ''Gluster_process'' = Some (before @ CHR '':'' # after)"
    and "startswith (before @ CHR '':'' # after) ''Brick''"
    and "CHR '':'' \<notin> set before"
  then have "enrich_row v =
     Inr (AList.update ''Directory'' (strip after)
           (AList.update ''IP'' (last (split_ws before)) v))"
    by (rule enrich_row_Brick)
  then show "\<exists>v'. enrich_row v = Inr v'
         \<and> map_of v' ''IP'' = Some (last (split_ws before))
         \<and> map_of v' ''Directory'' = Some (strip after)
         \<and> (\<forall>k. k \<noteq> ''IP'' \<and> k \<noteq> ''Directory'' \<longrightarrow> map_of v' k = map_of v k)"
    by (simp add: AList.update_conv')
next
  assume "map_of v ''Gluster_process'' = Some gp" and "startswith gp ''Self-heal''"
  then have "enrich_row v = Inr (AList.update ''Host'' (last (split_ws gp)) v)"
    by (rule enrich_row_Self_heal)
  then show "\<exists>v'. enrich_row v = Inr v'
         \<and> map_of v' ''Host'' = Some (last (split_ws gp))
         \<and> (\<forall>k. k \<noteq> ''Host'' \<longrightarrow> map_of v' k = map_of v k)"
    by (simp add: AList.update_conv')
next
  assume "map_of v ''Gluster_process'' = Some gp" and "\<not> startswith gp ''Brick''"
    and "\<not> startswith gp ''Self-heal''"
  then show "enrich_row v = Inr v"
    by (rule enrich_row_other)
next
  let ?c = "get_active_lines content (Some ''----'')"
  assume "GlusterVolStatus_parse_content get_active_lines parse_fixed_table self content
         = Inr self'" and mem: "(name, rows) \<in> set (data self')"
  then have "status_loop parse_fixed_table ?c [] (header_idxs ?c) = Inr (data self')"
    by (auto simp: GlusterVolStatus_parse_content_def Let_def split: sum.splits if_splits)
  from status_loop_rows [OF this mem]
  obtain idx rest where
    "enrich_rows (parse_fixed_table (section_lines ?c idx rest) header_substitute
       [''Gluster process''] [''Task Status'']) = Inr rows"
    by auto
  then show "\<exists>idx rest.
         list_all2 (\<lambda>r r'. enrich_row r = Inr r')
           (parse_fixed_table (section_lines ?c idx rest)
              header_substitute [''Gluster process''] [''Task Status''])
           rows"
    using enrich_rows_Inr by blast
qed

theorem enrich_row_derived_fields_witness:
  "map_of [(''Gluster_process'', ''Brick 172.17.18.42:/home/brick''), (''Pid'', ''26685'')]
       ''Gluster_process'' = Some (''Brick 172.17.18.42'' @ CHR '':'' # ''/home/brick'')
   \<and> startswith (''Brick 172.17.18.42'' @ CHR '':'' # ''/home/brick'') ''Brick''
   \<and> CHR '':'' \<notin> set ''Brick 172.17.18.42''
   \<and> (\<exists>v'. enrich_row
              [(''Gluster_process'', ''Brick 172.17.18.42:/home/brick''), (''Pid'', ''26685'')]
            = Inr v'
          \<and> map_of v' ''IP'' = Some ''172.17.18.42''
          \<and> map_of v' ''Directory'' = Some ''/home/brick''
          \<and> map_of v' ''Pid'' = Some ''26685'')
   \<and> startswith ''Self-heal Daemon on 172.17.18.44'' ''Self-heal''
   \<and> (\<exists>v'. enrich_row
              [(''Gluster_process'', ''Self-heal Daemon on 172.17.18.44''), (''Pid'', ''33400'')]
            = Inr v'
          \<and> map_of v' ''Host'' = Some ''172.17.18.44''
          \<and> map_of v' ''Pid'' = Some ''33400'')
   \<and> \<not> startswith ''NFS Server on localhost'' ''Brick''
   \<and> \<not> startswith ''NFS Server on localhost'' ''Self-heal''
   \<and> enrich_row [(''Gluster_process'', ''NFS Server on localhost''), (''Pid'', ''7'')]
       = Inr [(''Gluster_process'', ''NFS Server on localhost''), (''Pid'', ''7'')]
   \<and> GlusterVolStatus_parse_content spec_get_active_lines spec_parse_fixed_table
        \<lparr>data = []\<rparr>
        [''Status of volume: v'', ''Gluster process  Pid'', ''Brick a:/b         1'',
         ''Task Status'']
       = Inr \<lparr>data = [(''v'', [[(''Gluster_process'', ''Brick a:/b''), (''Pid'', ''1''),
                                  (''IP'', ''a''), (''Directory'', ''/b'')]])]\<rparr>
   \<and> (\<exists>idx rest.
         list_all2 (\<lambda>r r'. enrich_row r = Inr r')
           (spec_parse_fixed_table
              (section_lines
                 (spec_get_active_lines
                    [''Status of volume: v'', ''Gluster process  Pid'',
                     ''Brick a:/b         1'', ''Task Status''] (Some ''----'')) idx rest)
              header_substitute [''Gluster process''] [''Task Status''])
           [[(''Gluster_process'', ''Brick a:/b''), (''Pid'', ''1''),
             (''IP'', ''a''), (''Directory'', ''/b'')]])"
proof -
  let ?B = "[(''Gluster_process'', ''Brick 172.17.18.42:/home/brick''), (''Pid'', ''26685'')]"
  let ?S = "[(''Gluster_process'', ''Self-heal Daemon on 172.17.18.44''), (''Pid'', ''33400'')]"
  let ?N = "[(''Gluster_process'', ''NFS Server on localhost''), (''Pid'', ''7'')]"
  let ?C = "[''Status of volume: v'', ''Gluster process  Pid'', ''Brick a:/b         1'',
             ''Task Status'']"
  let ?rows = "[[(''Gluster_process'', ''Brick a:/b''), (''Pid'', ''1''),
                 (''IP'', ''a''), (''Directory'', ''/b'')]]"
  have b1: "map_of ?B ''Gluster_process''
      = Some (''Brick 172.17.18.42'' @ CHR '':'' # ''/home/brick'')"
    by simp
  have b2: "startswith (''Brick 172.17.18.42'' @ CHR '':'' # ''/home/brick'') ''Brick''"
    by code_simp
  have b3: "CHR '':'' \<notin> set ''Brick 172.17.18.42''"
    by simp
  have b4: "last (split_ws ''Brick 172.17.18.42'') = ''172.17.18.42''"
    by code_simp
  have b5: "strip ''/home/brick'' = ''/home/brick''"
    by code_simp
  have s1: "map_of ?S ''Gluster_process'' = Some ''Self-heal Daemon on 172.17.18.44''"
    by simp
  have s2: "startswith ''Self-heal Daemon on 172.17.18.44'' ''Self-heal''"
    by code_simp
  have s3: "last (split_ws ''Self-heal Daemon on 172.17.18.44'') = ''172.17.18.44''"
    by code_simp
  have n1: "map_of ?N ''Gluster_process'' = Some ''NFS Server on localhost''"
    by simp
  have n2: "\<not> startswith ''NFS Server on localhost'' ''Brick''"
    by code_simp
  have n3: "\<not> startswith ''NFS Server on localhost'' ''Self-heal''"
    by code_simp
  have p1: "GlusterVolStatus_parse_content spec_get_active_lines spec_parse_fixed_table
        \<lparr>data = []\<rparr> ?C = Inr \<lparr>data = [(''v'', ?rows)]\<rparr>"
    by code_simp
  have p2: "(''v'', ?rows) \<in> set (data \<lparr>data = [(''v'', ?rows)]\<rparr>)"
    by simp
  have B: "\<exists>v'. enrich_row ?B = Inr v'
          \<and> map_of v' ''IP'' = Some ''172.17.18.42''
          \<and> map_of v' ''Directory'' = Some ''/home/brick''
          \<and> map_of v' ''Pid'' = Some ''26685''"
    using enrich_row_derived_fields
      [where v = ?B and before = "''Brick 172.17.18.42''" and after = "''/home/brick''",
        THEN conjunct1, rule_format, OF conjI [OF b1 conjI [OF b2 b3]]]
    unfolding b4 b5 by (elim exE conjE) (auto simp: b1)
  have S: "\<exists>v'. enrich_row ?S = Inr v'
          \<and> map_of v' ''Host'' = Some ''172.17.18.44''
          \<and> map_of v' ''Pid'' = Some ''33400''"
    using enrich_row_derived_fields
      [where v = ?S and gp = "''Self-heal Daemon on 172.17.18.44''",
        THEN conjunct2, THEN conjunct1, rule_format, OF conjI [OF s1 s2]]
    unfolding s3 by (elim exE conjE) (auto simp: s1)
  have N: "enrich_row ?N = Inr ?N"
    using enrich_row_derived_fields
      [where v = ?N and gp = "''NFS Server on localhost''",
        THEN conjunct2, THEN conjunct2, THEN conjunct1, rule_format,
        OF conjI [OF n1 conjI [OF n2 n3]]] .
  have P: "\<exists>idx rest.
         list_all2 (\<lambda>r r'. enrich_row r = Inr r')
           (spec_parse_fixed_table
              (section_lines (spec_get_active_lines ?C (Some ''----'')) idx rest)
              header_substitute [''Gluster process''] [''Task Status''])
           ?rows"
    using enrich_row_derived_fields
      [where get_active_lines = spec_get_active_lines
         and parse_fixed_table = spec_parse_fixed_table and content = ?C
         and self = "\<lparr>data = []\<rparr>" and self' = "\<lparr>data = [(''v'', ?rows)]\<rparr>"
         and name = "''v''" and rows = ?rows,
        THEN conjunct2, THEN conjunct2, THEN conjunct2, rule_format,
        OF conjI [OF p1 p2]] .
  show ?thesis
    using b1 b2 b3 B s2 S n2 n3 N p1 P by blast
qed

text \<open>
  C7, as the code has it. When exactly two active lines start with "Status of volume", at
  the indices \<open>i\<close> and \<open>j\<close>, the call returns, and the two volume names (the trimmed texts
  after the first colon of each header) differ, the result has exactly these two keys, in
  this order, and the rows under the first name are those of the table parser on the
  lines from index \<open>i\<close> up to, and not including, index \<open>j\<close>. Two headers with the same
  name give one key, holding the rows of the second section.
\<close>

theorem two_headers_two_keys:
  assumes "header_idxs (get_active_lines content (Some ''----'')) = [i, j]"
    and "GlusterVolStatus_parse_content get_active_lines parse_fixed_table self content
           = Inr self'"
    and "split1 CHR '':'' (get_active_lines content (Some ''----'') ! i) = [u1, val1]"
    and "split1 CHR '':'' (get_active_lines content (Some ''----'') ! j) = [u2, val2]"
    and "strip val1 \<noteq> strip val2"
  shows "map fst (data self') = [strip val1, strip val2]
    \<and> (\<exists>rows. map_of (data self') (strip val1) = Some rows
          \<and> enrich_rows
               (parse_fixed_table
                  (take (j - i) (drop i (get_active_lines content (Some ''----''))))
                  header_substitute [''Gluster process''] [''Task Status'']) = Inr rows)"
proof -
  let ?c = "get_active_lines content (Some ''----'')"
  have "data (self\<lparr>data := []\<rparr>) = []"
    by simp
  with assms(1,2) have loop: "status_loop parse_fixed_table ?c [] [i, j] = Inr (data self')"
    unfolding GlusterVolStatus_parse_content_def Let_def
    by (auto simp del: status_loop.simps split: sum.splits if_splits)
  then obtain body1 where
    b1: "enrich_rows (parse_fixed_table (section_lines ?c i [j]) header_substitute
           [''Gluster process''] [''Task Status'']) = Inr body1"
    and loop2: "status_loop parse_fixed_table ?c [(strip val1, body1)] [j] = Inr (data self')"
    using assms(3) by (auto split: sum.splits)
  from loop2 assms(4) have
    "\<exists>body2. data self' = AList.update (strip val2) body2 [(strip val1, body1)]"
    by (auto split: sum.splits simp del: AList.update.simps) (rule exI, rule sym)
  then obtain body2 where
    "data self' = AList.update (strip val2) body2 [(strip val1, body1)]"
    by blast
  with assms(5) have d: "data self' = [(strip val1, body1), (strip val2, body2)]"
    by simp
  from b1 have "enrich_rows (parse_fixed_table (take (j - i) (drop i ?c)) header_substitute
           [''Gluster process''] [''Task Status'']) = Inr body1"
    by (simp add: section_lines_next)
  with d show ?thesis by simp
qed

theorem two_headers_two_keys_witness:
  "header_idxs (spec_get_active_lines
      [''Status of volume: a'', ''Gluster process  Pid'', ''Brick h:/b         1'',
       ''Status of volume: b'', ''Gluster process  Pid'', ''Brick h:/c         2'',
       ''Task Status''] (Some ''----'')) = [0, 3]
   \<and> GlusterVolStatus_parse_content spec_get_active_lines spec_parse_fixed_table
        \<lparr>data = []\<rparr>
        [''Status of volume: a'', ''Gluster process  Pid'', ''Brick h:/b         1'',
         ''Status of volume: b'', ''Gluster process  Pid'', ''Brick h:/c         2'',
         ''Task Status'']
     = Inr \<lparr>data =
         [(''a'', [[(''Gluster_process'', ''Brick h:/b''), (''Pid'', ''1''),
                    (''IP'', ''h''), (''Directory'', ''/b'')]]),
          (''b'', [[(''Gluster_process'', ''Brick h:/c''), (''Pid'', ''2''),
                    (''IP'', ''h''), (''Directory'', ''/c'')]])]\<rparr>
   \<and> strip '' a'' \<noteq> strip '' b''
   \<and> map fst
        [(''a'', [[(''Gluster_process'', ''Brick h:/b''), (''Pid'', ''1''),
                   (''IP'', ''h''), (''Directory'', ''/b'')]]),
         (''b'', [[(''Gluster_process'', ''Brick h:/c''), (''Pid'', ''2''),
                   (''IP'', ''h''), (''Directory'', ''/c'')]])]
       = [strip '' a'', strip '' b'']"
proof -
  let ?C = "[''Status of volume: a'', ''Gluster process  Pid'', ''Brick h:/b         1'',
             ''Status of volume: b'', ''Gluster process  Pid'', ''Brick h:/c         2'',
             ''Task Status'']"
  let ?D = "[(''a'', [[(''Gluster_process'', ''Brick h:/b''), (''Pid'', ''1''),
                       (''IP'', ''h''), (''Directory'', ''/b'')]]),
             (''b'', [[(''Gluster_process'', ''Brick h:/c''), (''Pid'', ''2''),
                       (''IP'', ''h''), (''Directory'', ''/c'')]])]"
  have h1: "header_idxs (spec_get_active_lines ?C (Some ''----'')) = [0, 3]"
    by code_simp
  have h2: "GlusterVolStatus_parse_content spec_get_active_lines spec_parse_fixed_table
        \<lparr>data = []\<rparr> ?C = Inr \<lparr>data = ?D\<rparr>"
    by code_simp
  have h3: "split1 CHR '':'' (spec_get_active_lines ?C (Some ''----'') ! 0)
      = [''Status of volume'', '' a'']"
    by code_simp
  have h4: "split1 CHR '':'' (spec_get_active_lines ?C (Some ''----'') ! 3)
      = [''Status of volume'', '' b'']"
    by code_simp
  have h5: "strip '' a'' \<noteq> strip '' b''"
    by code_simp
  note t = two_headers_two_keys
    [where get_active_lines = spec_get_active_lines
       and parse_fixed_table = spec_parse_fixed_table and content = ?C
       and self = "\<lparr>data = []\<rparr>" and self' = "\<lparr>data = ?D\<rparr>"
       and i = 0 and j = 3 and ?val1.0 = "'' a''" and ?val2.0 = "'' b''"
       and ?u1.0 = "''Status of volume''" and ?u2.0 = "''Status of volume''",
      OF h1 h2 h3 h4 h5]
  show ?thesis
    using h1 h2 h5 t by simp
qed

theorem two_headers_one_key_counterexample:
  "length (header_idxs (spec_get_active_lines
      [''Status of volume: v'', ''Gluster process  Pid'', ''Brick h:/b         1'',
       ''Status of volume: v'', ''Gluster process  Pid'', ''Brick h:/c         2'',
       ''Task Status''] (Some ''----''))) = 2
   \<and> GlusterVolStatus_parse_content spec_get_active_lines spec_parse_fixed_table
        \<lparr>data = []\<rparr>
        [''Status of volume: v'', ''Gluster process  Pid'', ''Brick h:/b         1'',
         ''Status of volume: v'', ''Gluster process  Pid'', ''Brick h:/c         2'',
         ''Task Status'']
     = Inr \<lparr>data =
         [(''v'', [[(''Gluster_process'', ''Brick h:/c''), (''Pid'', ''2''),
                    (''IP'', ''h''), (''Directory'', ''/c'')]])]\<rparr>
   \<and> length (data \<lparr>data =
         [(''v'', [[(''Gluster_process'', ''Brick h:/c''), (''Pid'', ''2''),
                    (''IP'', ''h''), (''Directory'', ''/c'')]])]\<rparr>) \<noteq> 2"
  by code_simp

text \<open>
  C10. \<^verbatim>\<open>ParseException\<close> is not the only exception of
  \<^verbatim>\<open>GlusterVolStatus.parse_content\<close>: when the table of the first section has the column
  "Gluster_process" in every row and some row's value starts with "Brick" and contains no
  colon, the unpacking of the colon split raises \<^verbatim>\<open>ValueError\<close>, and that is what the
  call raises.
\<close>

theorem brick_without_colon_raises_ValueError:
  assumes "header_idxs (get_active_lines content (Some ''----'')) = idx # rest"
    and "CHR '':'' \<in> set (get_active_lines content (Some ''----'') ! idx)"
    and "parse_fixed_table (section_lines (get_active_lines content (Some ''----'')) idx rest)
           header_substitute [''Gluster process''] [''Task Status''] = rows"
    and "\<forall>r\<in>set rows. map_of r ''Gluster_process'' \<noteq> None"
    and "v \<in> set rows"
    and "map_of v ''Gluster_process'' = Some gluster_process"
    and "startswith gluster_process ''Brick''"
    and "CHR '':'' \<notin> set gluster_process"
  shows "enrich_row v = Inl ValueError
    \<and> GlusterVolStatus_parse_content get_active_lines parse_fixed_table self content
        = Inl ValueError
    \<and> ValueError \<noteq> ParseException"
proof -
  have v: "enrich_row v = Inl ValueError"
    using assms(6-8) by (rule enrich_row_Brick_no_colon)
  with assms(4,5) have "enrich_rows rows = Inl ValueError"
    by (intro enrich_rows_ValueError) auto
  with assms(1-3) v show ?thesis
    by (simp add: GlusterVolStatus_parse_content_def split1_in)
qed

theorem brick_without_colon_raises_ValueError_witness:
  "header_idxs (spec_get_active_lines
       [''Status of volume: v'', ''Gluster process  Pid'', ''Brick a           1'',
        ''Task Status''] (Some ''----'')) = [0]
   \<and> spec_parse_fixed_table
        (section_lines (spec_get_active_lines
           [''Status of volume: v'', ''Gluster process  Pid'', ''Brick a           1'',
            ''Task Status''] (Some ''----'')) 0 [])
        header_substitute [''Gluster process''] [''Task Status'']
       = [[(''Gluster_process'', ''Brick a''), (''Pid'', ''1'')]]
   \<and> startswith ''Brick a'' ''Brick''
   \<and> CHR '':'' \<notin> set ''Brick a''
   \<and> enrich_row [(''Gluster_process'', ''Brick a''), (''Pid'', ''1'')] = Inl ValueError
   \<and> GlusterVolStatus_parse_content spec_get_active_lines spec_parse_fixed_table
        \<lparr>data = []\<rparr>
        [''Status of volume: v'', ''Gluster process  Pid'', ''Brick a           1'',
         ''Task Status''] = Inl ValueError
   \<and> ValueError \<noteq> ParseException"
proof -
  let ?C = "[''Status of volume: v'', ''Gluster process  Pid'', ''Brick a           1'',
             ''Task Status'']"
  let ?R = "[(''Gluster_process'', ''Brick a''), (''Pid'', ''1'')]"
  have h1: "header_idxs (spec_get_active_lines ?C (Some ''----'')) = [0]"
    by code_simp
  have h2: "CHR '':'' \<in> set (spec_get_active_lines ?C (Some ''----'') ! 0)"
    by code_simp
  have h3: "spec_parse_fixed_table
        (section_lines (spec_get_active_lines ?C (Some ''----'')) 0 [])
        header_substitute [''Gluster process''] [''Task Status''] = [?R]"
    by code_simp
  have h4: "\<forall>r\<in>set [?R]. map_of r ''Gluster_process'' \<noteq> None"
    by simp
  have h5: "?R \<in> set [?R]"
    by simp
  have h6: "map_of ?R ''Gluster_process'' = Some ''Brick a''"
    by simp
  have h7: "startswith ''Brick a'' ''Brick''"
    by code_simp
  have h8: "CHR '':'' \<notin> set ''Brick a''"
    by simp
  note t = brick_without_colon_raises_ValueError
    [where get_active_lines = spec_get_active_lines
       and parse_fixed_table = spec_parse_fixed_table and content = ?C and idx = 0
       and rest = "[]" and rows = "[?R]" and v = ?R and gluster_process = "''Brick a''"
       and self = "\<lparr>data = []\<rparr>", OF h1 h2 h3 h4 h5 h6 h7 h8]
  show ?thesis
    using h1 h3 h7 h8 t by blast
qed

section \<open>Properties of both parsers\<close>

text \<open>
  C5. After its loop, each parser raises \<^verbatim>\<open>ParseException\<close> exactly when the mapping
  it has built is empty, and otherwise returns with that mapping. So
  \<^verbatim>\<open>GlusterVolInfo.parse_content\<close> raises when there is no active line at all, and whenever
  the loop ends without a committed volume; \<^verbatim>\<open>GlusterVolStatus.parse_content\<close> raises
  \<^verbatim>\<open>ParseException\<close> exactly when no active line starts with "Status of volume"; and
  neither returns an empty mapping.
\<close>

theorem empty_result_raises:
  "(info_loop ([], None, []) (get_active_lines content None) = Inr st \<longrightarrow>
      GlusterVolInfo_parse_content get_active_lines self content =
        (if info_commit_last st = [] then Inl ParseException
         else Inr (self\<lparr>data := info_commit_last st\<rparr>)))
   \<and> (get_active_lines content None = [] \<longrightarrow>
        GlusterVolInfo_parse_content get_active_lines self content = Inl ParseException)
   \<and> (GlusterVolInfo_parse_content get_active_lines self content = Inr self' \<longrightarrow>
        data self' \<noteq> [])
   \<and> (GlusterVolStatus_parse_content get_active_lines parse_fixed_table self2 content
          = Inl ParseException
        \<longleftrightarrow> \<not> list_ex (\<lambda>l. startswith l ''Status of volume'')
                (get_active_lines content (Some ''----'')))
   \<and> (GlusterVolStatus_parse_content get_active_lines parse_fixed_table self2 content
          = Inr self2' \<longrightarrow> data self2' \<noteq> [])"
proof (intro conjI impI)
  assume "info_loop ([], None, []) (get_active_lines content None) = Inr st"
  then show "GlusterVolInfo_parse_content get_active_lines self content =
        (if info_commit_last st = [] then Inl ParseException
         else Inr (self\<lparr>data := info_commit_last st\<rparr>))"
    by (simp add: GlusterVolInfo_parse_content_def info_finish_def Let_def)
next
  assume "get_active_lines content None = []"
  then show "GlusterVolInfo_parse_content get_active_lines self content = Inl ParseException"
    by (simp add: GlusterVolInfo_parse_content_def info_finish_def info_commit_last_def)
next
  assume "GlusterVolInfo_parse_content get_active_lines self content = Inr self'"
  then show "data self' \<noteq> []"
    by (auto simp: GlusterVolInfo_parse_content_def Let_def
        split: sum.splits dest: info_finish_nonempty)
next
  let ?c = "get_active_lines content (Some ''----'')"
  show "GlusterVolStatus_parse_content get_active_lines parse_fixed_table self2 content
          = Inl ParseException
        \<longleftrightarrow> \<not> list_ex (\<lambda>l. startswith l ''Status of volume'') ?c"
  proof (cases "header_idxs ?c = []")
    case True
    then show ?thesis
      using header_idxs_empty_iff [of ?c]
      by (simp add: GlusterVolStatus_parse_content_def)
  next
    case False
    have "status_loop parse_fixed_table ?c [] (header_idxs ?c) \<noteq> Inr []"
      using status_loop_nonempty [of parse_fixed_table ?c "[]" "header_idxs ?c" "[]"] False
      by blast
    then have "GlusterVolStatus_parse_content get_active_lines parse_fixed_table self2 content
        \<noteq> Inl ParseException"
      by (auto simp: GlusterVolStatus_parse_content_def Let_def
          status_loop_not_ParseException split: sum.splits)
    with False show ?thesis
      using header_idxs_empty_iff [of ?c] by simp
  qed
next
  assume "GlusterVolStatus_parse_content get_active_lines parse_fixed_table self2 content
          = Inr self2'"
  then show "data self2' \<noteq> []"
    by (auto simp: GlusterVolStatus_parse_content_def Let_def split: sum.splits if_splits)
qed

theorem empty_result_raises_witness:
  "info_loop ([], None, []) (spec_get_active_lines [''Volume Name: v'', ''Type: x''] None)
     = Inr ([], Some ''v'', [(''Type'', ''x'')])
   \<and> GlusterVolInfo_parse_content spec_get_active_lines \<lparr>data = []\<rparr>
        [''Volume Name: v'', ''Type: x''] = Inr \<lparr>data = [(''v'', [(''Type'', ''x'')])]\<rparr>
   \<and> info_loop ([], None, []) (spec_get_active_lines [''Volume Name: v''] None)
     = Inr ([], Some ''v'', [])
   \<and> GlusterVolInfo_parse_content spec_get_active_lines \<lparr>data = []\<rparr> [''Volume Name: v'']
     = Inl ParseException
   \<and> spec_get_active_lines ['''', ''  ''] None = []
   \<and> GlusterVolInfo_parse_content spec_get_active_lines \<lparr>data = []\<rparr> ['''', ''  '']
     = Inl ParseException
   \<and> GlusterVolStatus_parse_content spec_get_active_lines spec_parse_fixed_table \<lparr>data = []\<rparr>
        [''Status of volume: v'', ''Gluster process  Pid'', ''Task Status'']
       = Inr \<lparr>data = [(''v'', [])]\<rparr>
   \<and> data \<lparr>data = [(''v'', []::process_row list)]\<rparr> \<noteq> []"
proof -
  note t = empty_result_raises [where get_active_lines = spec_get_active_lines
      and self = "\<lparr>data = []\<rparr>" and ?self2.0 = "\<lparr>data = []\<rparr>"
      and parse_fixed_table = spec_parse_fixed_table]
  have a: "info_loop ([], None, []) (spec_get_active_lines [''Volume Name: v'', ''Type: x''] None)
     = Inr ([], Some ''v'', [(''Type'', ''x'')])"
    by code_simp
  have b: "info_loop ([], None, []) (spec_get_active_lines [''Volume Name: v''] None)
     = Inr ([], Some ''v'', [])"
    by code_simp
  have c: "spec_get_active_lines ['''', ''  ''] None = []"
    by code_simp
  have d: "GlusterVolStatus_parse_content spec_get_active_lines spec_parse_fixed_table
      \<lparr>data = []\<rparr> [''Status of volume: v'', ''Gluster process  Pid'', ''Task Status'']
       = Inr \<lparr>data = [(''v'', [])]\<rparr>"
    by code_simp
  have a': "GlusterVolInfo_parse_content spec_get_active_lines \<lparr>data = []\<rparr>
        [''Volume Name: v'', ''Type: x''] = Inr \<lparr>data = [(''v'', [(''Type'', ''x'')])]\<rparr>"
    using t [THEN conjunct1, rule_format, OF a]
    by (simp add: info_commit_last_def)
  have b': "GlusterVolInfo_parse_content spec_get_active_lines \<lparr>data = []\<rparr> [''Volume Name: v'']
     = Inl ParseException"
    using t [THEN conjunct1, rule_format, OF b]
    by (simp add: info_commit_last_def)
  have c': "GlusterVolInfo_parse_content spec_get_active_lines \<lparr>data = []\<rparr> ['''', ''  '']
     = Inl ParseException"
    using t [THEN conjunct2, THEN conjunct1, rule_format, OF c] .
  have d': "data \<lparr>data = [(''v'', []::process_row list)]\<rparr> \<noteq> []"
    using t [THEN conjunct2, THEN conjunct2, THEN conjunct2, THEN conjunct2, rule_format, OF d] .
  show ?thesis
    using a a' b b' c c' d d' by blast
qed

text \<open>
  C9. Both parse operations are functions of the input lines alone: whatever
  \<^verbatim>\<open>self.data\<close> held before the call (the first statement replaces it), the outcome is
  the same, and a second call on the object the first call returned, with the same lines,
  returns an equal object.
\<close>

theorem parse_content_stateless:
  "GlusterVolInfo_parse_content get_active_lines self1 content
     = GlusterVolInfo_parse_content get_active_lines self2 content
   \<and> GlusterVolStatus_parse_content get_active_lines parse_fixed_table obj1 content
     = GlusterVolStatus_parse_content get_active_lines parse_fixed_table obj2 content
   \<and> (GlusterVolInfo_parse_content get_active_lines self1 content = Inr self1' \<longrightarrow>
        GlusterVolInfo_parse_content get_active_lines self1' content = Inr self1')
   \<and> (GlusterVolStatus_parse_content get_active_lines parse_fixed_table obj1 content
          = Inr obj1' \<longrightarrow>
        GlusterVolStatus_parse_content get_active_lines parse_fixed_table obj1' content
          = Inr obj1')"
  by (cases self1, cases self2, cases obj1, cases obj2, cases self1', cases obj1')
     (simp add: GlusterVolInfo_parse_content_def GlusterVolStatus_parse_content_def
        info_finish_def)

theorem parse_content_stateless_witness:
  "GlusterVolInfo_parse_content spec_get_active_lines \<lparr>data = [(''old'', [])]\<rparr>
       [''Volume Name: test_vol'', ''Type: Replicate'']
     = Inr \<lparr>data = [(''test_vol'', [(''Type'', ''Replicate'')])]\<rparr>
   \<and> GlusterVolInfo_parse_content spec_get_active_lines
       \<lparr>data = [(''test_vol'', [(''Type'', ''Replicate'')])]\<rparr>
       [''Volume Name: test_vol'', ''Type: Replicate'']
     = Inr \<lparr>data = [(''test_vol'', [(''Type'', ''Replicate'')])]\<rparr>
   \<and> GlusterVolStatus_parse_content spec_get_active_lines spec_parse_fixed_table
       \<lparr>data = [(''old'', [])]\<rparr>
       [''Status of volume: v'', ''Gluster process  Pid'', ''Self-heal on h   7'', ''Task Status'']
     = Inr \<lparr>data = [(''v'', [[(''Gluster_process'', ''Self-heal on h''), (''Pid'', ''7''),
                                (''Host'', ''h'')]])]\<rparr>
   \<and> GlusterVolStatus_parse_content spec_get_active_lines spec_parse_fixed_table
       \<lparr>data = [(''v'', [[(''Gluster_process'', ''Self-heal on h''), (''Pid'', ''7''),
                           (''Host'', ''h'')]])]\<rparr>
       [''Status of volume: v'', ''Gluster process  Pid'', ''Self-heal on h   7'', ''Task Status'']
     = Inr \<lparr>data = [(''v'', [[(''Gluster_process'', ''Self-heal on h''), (''Pid'', ''7''),
                                (''Host'', ''h'')]])]\<rparr>"
proof -
  note t = parse_content_stateless [where get_active_lines = spec_get_active_lines
      and parse_fixed_table = spec_parse_fixed_table]
  have a: "GlusterVolInfo_parse_content spec_get_active_lines \<lparr>data = [(''old'', [])]\<rparr>
       [''Volume Name: test_vol'', ''Type: Replicate'']
     = Inr \<lparr>data = [(''test_vol'', [(''Type'', ''Replicate'')])]\<rparr>"
    by code_simp
  have b: "GlusterVolStatus_parse_content spec_get_active_lines spec_parse_fixed_table
       \<lparr>data = [(''old'', [])]\<rparr>
       [''Status of volume: v'', ''Gluster process  Pid'', ''Self-heal on h   7'', ''Task Status'']
     = Inr \<lparr>data = [(''v'', [[(''Gluster_process'', ''Self-heal on h''), (''Pid'', ''7''),
                                (''Host'', ''h'')]])]\<rparr>"
    by code_simp
  show ?thesis
    using a b
      t [THEN conjunct2, THEN conjunct2, THEN conjunct1, rule_format, OF a]
      t [THEN conjunct2, THEN conjunct2, THEN conjunct2, rule_format, OF b]
    by blast
qed

end
